theory Spec2Isabelle
  imports Complex_Main "HOL-Library.Multiset"
begin

section \<open>Data model\<close>

text \<open>
  Charges are Python floats; they are only stored and compared, never computed
  with, so they are modelled as reals (finite floats; NaN is not modelled).
  Shell sizes and molecule ids are Python ints.  A fingerprint is the string
  that \<^verbatim>\<open>Nauty.canonize\<close> returns.
\<close>

type_synonym charge = real
type_synonym fingerprint = string
type_synonym atom = int

text \<open>The exceptions that the modelled code raises.\<close>

datatype error =
    MissingPartialCharge atom
      \<comment> \<open>\<^verbatim>\<open>KeyError('Missing property "partial_charge" for atom {}'.format(atom))\<close>\<close>
  | KeyError          \<comment> \<open>subscript or \<^verbatim>\<open>del\<close> of a key that a dict does not hold\<close>
  | IndexError        \<comment> \<open>\<^verbatim>\<open>list.pop\<close> out of range\<close>
  | AttributeError    \<comment> \<open>read of an attribute that was never assigned\<close>
  | IOError           \<comment> \<open>the molecule file cannot be opened\<close>
  | ValueError        \<comment> \<open>the dreadnaut executable is missing; unpacking of a wrong-sized sequence\<close>

text \<open>
  A call that mutates an object in place either returns normally with the
  mutated state (\<open>Inr\<close>) or raises, leaving the state as it was at the raise
  (\<open>Inl\<close>).
\<close>

type_synonym 's outcome = "(error \<times> 's) + 's"

subsection \<open>Python dictionaries\<close>

text \<open>
  A \<^verbatim>\<open>dict\<close> has no default factory; a \<^verbatim>\<open>defaultdict\<close> has one, and a subscript
  read of a missing key stores and returns the factory's value.  Python's
  \<^verbatim>\<open>==\<close> on dictionaries compares the items only.
\<close>

record ('k, 'v) pydict =
  items :: "'k \<rightharpoonup> 'v"
  default_factory :: "'v option"

definition py_dict :: "('k, 'v) pydict" where
  "py_dict = \<lparr>items = Map.empty, default_factory = None\<rparr>"

definition py_defaultdict :: "'v \<Rightarrow> ('k, 'v) pydict" where
  "py_defaultdict v = \<lparr>items = Map.empty, default_factory = Some v\<rparr>"

definition py_contains :: "('k, 'v) pydict \<Rightarrow> 'k \<Rightarrow> bool" where
  "py_contains d k = (items d k \<noteq> None)"

definition py_getitem :: "('k, 'v) pydict \<Rightarrow> 'k \<Rightarrow> error + ('v \<times> ('k, 'v) pydict)" where
  "py_getitem d k =
     (case items d k of
        Some v \<Rightarrow> Inr (v, d)
      | None \<Rightarrow>
          (case default_factory d of
             None \<Rightarrow> Inl KeyError
           | Some v \<Rightarrow> Inr (v, d\<lparr>items := (items d)(k \<mapsto> v)\<rparr>)))"

definition py_setitem :: "('k, 'v) pydict \<Rightarrow> 'k \<Rightarrow> 'v \<Rightarrow> ('k, 'v) pydict" where
  "py_setitem d k v = d\<lparr>items := (items d)(k \<mapsto> v)\<rparr>"

definition py_delitem :: "('k, 'v) pydict \<Rightarrow> 'k \<Rightarrow> ('k, 'v) pydict" where
  "py_delitem d k = d\<lparr>items := (items d)(k := None)\<rparr>"

definition py_len_is_0 :: "('k, 'v) pydict \<Rightarrow> bool" where
  "py_len_is_0 d = (dom (items d) = {})"

type_synonym shell_dict = "(fingerprint, charge list) pydict"
type_synonym charge_dict = "(int, shell_dict) pydict"

text \<open>\<^verbatim>\<open>defaultdict(lambda: defaultdict(list))\<close>, as \<^verbatim>\<open>Repository.__init__\<close> creates it.\<close>

definition new_charge_dict :: charge_dict where
  "new_charge_dict = py_defaultdict (py_defaultdict [])"

text \<open>What \<^verbatim>\<open>==\<close> compares: shell \<open>\<rightarrow>\<close> fingerprint \<open>\<rightarrow>\<close> bucket.\<close>

definition contents :: "charge_dict \<Rightarrow> int \<rightharpoonup> (fingerprint \<rightharpoonup> charge list)" where
  "contents repo = (\<lambda>shell. map_option items (items repo shell))"

subsection \<open>The standard library's bisect module\<close>

text \<open>
  \<^verbatim>\<open>
  def bisect_left(a, x, lo=0, hi=None):
      if hi is None: hi = len(a)
      while lo < hi:
          mid = (lo + hi) // 2
          if a[mid] < x: lo = mid + 1
          else: hi = mid
      return lo
  def insort_left(a, x): a.insert(bisect_left(a, x), x)
  \<close>
\<close>

function bisect_left_loop :: "charge list \<Rightarrow> charge \<Rightarrow> nat \<Rightarrow> nat \<Rightarrow> nat" where
  "bisect_left_loop a x lo hi =
     (if lo < hi then
        (let mid = (lo + hi) div 2 in
         if a ! mid < x then bisect_left_loop a x (mid + 1) hi
         else bisect_left_loop a x lo mid)
      else lo)"
  by pat_completeness auto
termination
  by (relation "measure (\<lambda>(a, x, lo, hi). hi - lo)") auto

declare bisect_left_loop.simps [simp del]

definition bisect_left :: "charge list \<Rightarrow> charge \<Rightarrow> nat" where
  "bisect_left a x = bisect_left_loop a x 0 (length a)"

definition insort_left :: "charge list \<Rightarrow> charge \<Rightarrow> charge list" where
  "insort_left a x = (let i = bisect_left a x in take i a @ [x] @ drop i a)"

text \<open>\<^verbatim>\<open>a.pop(i)\<close> for \<open>0 \<le> i\<close>: raises IndexError when \<open>i\<close> is out of range.\<close>

definition list_pop :: "'a list \<Rightarrow> nat \<Rightarrow> error + 'a list" where
  "list_pop a i = (if i < length a then Inr (take i a @ drop (Suc i) a) else Inl IndexError)"

section \<open>Repository.add and Repository.subtract: the per-observation steps\<close>

text \<open>
  The local function \<^verbatim>\<open>a\<close> of \<^verbatim>\<open>Repository.add\<close> (here \<open>add_a\<close>):
  \<^verbatim>\<open>
  if shell not in repo: repo[shell] = dict()
  if key not in repo[shell]: repo[shell][key] = []
  bisect.insort_left(repo[shell][key], partial_charge)
  \<close>
  Every subscript read happens after the key has been stored, so no default
  factory runs and nothing is raised.
\<close>

definition add_a :: "int \<Rightarrow> fingerprint \<Rightarrow> charge \<Rightarrow> charge_dict \<Rightarrow> charge_dict" where
  "add_a shell key partial_charge repo =
     (let sd = (case items repo shell of None \<Rightarrow> py_dict | Some d \<Rightarrow> d);
          bucket = (case items sd key of None \<Rightarrow> [] | Some b \<Rightarrow> b)
      in py_setitem repo shell (py_setitem sd key (insort_left bucket partial_charge)))"

text \<open>
  The local function \<^verbatim>\<open>s\<close> of \<^verbatim>\<open>Repository.subtract\<close> (here \<open>subtract_s\<close>):
  \<^verbatim>\<open>
  repo[shell][key].pop(bisect.bisect_left(repo[shell][key], partial_charge))
  if len(repo[shell][key]) == 0: del repo[shell][key]
  if len(repo[shell]) == 0: del repo[shell]
  \<close>
  The first subscript reads may raise KeyError (plain dict) or store a default
  (defaultdict), after which popping from the fresh empty list raises IndexError.
\<close>

definition subtract_s :: "int \<Rightarrow> fingerprint \<Rightarrow> charge \<Rightarrow> charge_dict \<Rightarrow> charge_dict outcome" where
  "subtract_s shell key partial_charge repo =
     (case py_getitem repo shell of
        Inl e \<Rightarrow> Inl (e, repo)
      | Inr (sd, repo1) \<Rightarrow>
          (case py_getitem sd key of
             Inl e \<Rightarrow> Inl (e, repo1)
           | Inr (bucket, sd1) \<Rightarrow>
               (let repo2 = py_setitem repo1 shell sd1 in
                case list_pop bucket (bisect_left bucket partial_charge) of
                  Inl e \<Rightarrow> Inl (e, repo2)
                | Inr bucket' \<Rightarrow>
                    (let sd2 = py_setitem sd1 key bucket';
                         sd3 = (if length bucket' = 0 then py_delitem sd2 key else sd2);
                         repo3 = py_setitem repo2 shell sd3
                     in Inr (if py_len_is_0 sd3 then py_delitem repo3 shell else repo3)))))"

section \<open>Molecule graphs and the external collaborators\<close>

text \<open>
  A molecule is a networkx graph: \<^verbatim>\<open>graph.nodes()\<close> lists the atoms in insertion
  order and \<^verbatim>\<open>graph.node[atom]\<close> is the atom's attribute dictionary, of which
  the code reads \<^verbatim>\<open>atom_type\<close> and the optional \<^verbatim>\<open>partial_charge\<close>.
\<close>

record node_data =
  atom_type :: string
  partial_charge :: "charge option"

record graph =
  nodes :: "atom list"
  node :: "atom \<Rightarrow> node_data"
  edges :: "(atom \<times> atom) list"

text \<open>
  What the code takes from outside \<^verbatim>\<open>repository.py\<close>: the two fingerprint
  functions of \<^verbatim>\<open>Nauty\<close> (answered by the external dreadnaut process, taken
  here as deterministic functions), the table \<^verbatim>\<open>IACM_MAP\<close> of
  \<^verbatim>\<open>charge.settings\<close>, the molecule files (\<^verbatim>\<open>open\<close> followed by
  \<^verbatim>\<open>convert_from\<close>, for the data location and file type of the call;
  \<open>None\<close> when the file cannot be opened), and whether the dreadnaut
  executable that \<^verbatim>\<open>Nauty.__init__\<close> checks for is present.
\<close>

record env =
  canonize_neighborhood :: "graph \<Rightarrow> atom \<Rightarrow> int \<Rightarrow> fingerprint"
  canonize :: "graph \<Rightarrow> fingerprint"
  IACM_MAP :: "string \<rightharpoonup> string"
  convert_from_file :: "int \<Rightarrow> graph option"
  executable_ok :: bool

subsection \<open>Iteration and generators\<close>

text \<open>A \<^verbatim>\<open>for\<close> loop whose body mutates a state and may raise.\<close>

fun for_each :: "('x \<Rightarrow> 's \<Rightarrow> 's outcome) \<Rightarrow> 'x list \<Rightarrow> 's \<Rightarrow> 's outcome" where
  "for_each body [] st = Inr st"
| "for_each body (x # xs) st =
     (case body x st of Inl err \<Rightarrow> Inl err | Inr st' \<Rightarrow> for_each body xs st')"

text \<open>
  A generator is the sequence of values it yields, followed by the exception it
  raises, if any.  A \<^verbatim>\<open>for\<close> loop over it runs the body on every value yielded
  before the raise.
\<close>

type_synonym 'x generator = "'x list \<times> error option"

definition for_generator :: "('x \<Rightarrow> 's \<Rightarrow> 's outcome) \<Rightarrow> 'x generator \<Rightarrow> 's \<Rightarrow> 's outcome" where
  "for_generator body gen st =
     (case for_each body (fst gen) st of
        Inl err \<Rightarrow> Inl err
      | Inr st' \<Rightarrow> (case snd gen of None \<Rightarrow> Inr st' | Some e \<Rightarrow> Inl (e, st')))"

text \<open>
  \<^verbatim>\<open>
  def _iter_atomic_fragments(graph, nauty, shell):
      for atom in graph.nodes():
          if 'partial_charge' not in graph.node[atom]:
              raise KeyError('Missing property "partial_charge" for atom {}'.format(atom))
          partial_charge = float(graph.node[atom]['partial_charge'])
          yield nauty.canonize_neighborhood(graph, atom, shell), partial_charge
  \<close>
\<close>

fun iter_atomic_fragments_from ::
  "env \<Rightarrow> graph \<Rightarrow> int \<Rightarrow> atom list \<Rightarrow> (fingerprint \<times> charge) generator" where
  "iter_atomic_fragments_from env graph shell [] = ([], None)"
| "iter_atomic_fragments_from env graph shell (atom # rest) =
     (case partial_charge (node graph atom) of
        None \<Rightarrow> ([], Some (MissingPartialCharge atom))
      | Some pc \<Rightarrow>
          (let gen = iter_atomic_fragments_from env graph shell rest
           in ((canonize_neighborhood env graph atom shell, pc) # fst gen, snd gen)))"

definition iter_atomic_fragments :: "env \<Rightarrow> graph \<Rightarrow> int \<Rightarrow> (fingerprint \<times> charge) generator" where
  "iter_atomic_fragments env graph shell = iter_atomic_fragments_from env graph shell (nodes graph)"

text \<open>
  \<^verbatim>\<open>
  for v, data in graph.nodes(data=True):
      graph.node[v]['atom_type'] = IACM_MAP[data['atom_type']]
  \<close>
\<close>

fun convert_to_elements :: "env \<Rightarrow> atom list \<Rightarrow> graph \<Rightarrow> error + graph" where
  "convert_to_elements env [] graph = Inr graph"
| "convert_to_elements env (v # vs) graph =
     (case IACM_MAP env (atom_type (node graph v)) of
        None \<Rightarrow> Inl KeyError
      | Some t \<Rightarrow>
          convert_to_elements env vs
            (graph\<lparr>node := (node graph)(v := (node graph v)\<lparr>atom_type := t\<rparr>)\<rparr>))"

section \<open>The repository\<close>

text \<open>
  The isomorphism indices are assigned by \<^verbatim>\<open>create_from\<close> and \<^verbatim>\<open>read\<close> only;
  \<^verbatim>\<open>__init__\<close> leaves the two attributes unset (\<open>None\<close>), and reading an unset
  attribute raises AttributeError.  Every subscript read of an index is guarded
  by \<^verbatim>\<open>in\<close>, so its default factory never runs and the index is a plain map.
\<close>

type_synonym iso_index = "int \<rightharpoonup> int list"

record repository =
  min_shell :: int
  max_shell :: int
  charges_iacm :: charge_dict
  charges_elem :: charge_dict
  iso_iacm :: "iso_index option"
  iso_elem :: "iso_index option"

definition Repository_init :: "env \<Rightarrow> int \<Rightarrow> int \<Rightarrow> error + repository" where
  "Repository_init env mn mx =
     (if \<not> executable_ok env then Inl ValueError
      else Inr \<lparr>min_shell = max mn 0, max_shell = mx,
                charges_iacm = new_charge_dict, charges_elem = new_charge_dict,
                iso_iacm = None, iso_elem = None\<rparr>)"

text \<open>Python's \<^verbatim>\<open>set.union\<close> on sets held as duplicate-free lists; it returns a new set.\<close>

definition py_set_union :: "int list \<Rightarrow> int list \<Rightarrow> int list" where
  "py_set_union xs ys = remdups (xs @ ys)"

type_synonym callable = "int \<Rightarrow> fingerprint \<Rightarrow> charge \<Rightarrow> charge_dict \<Rightarrow> charge_dict outcome"

text \<open>The two lambdas of \<^verbatim>\<open>add\<close> and \<^verbatim>\<open>subtract\<close> act on one store of the repository.\<close>

definition on_charges_iacm :: "(charge_dict \<Rightarrow> charge_dict outcome) \<Rightarrow> repository \<Rightarrow> repository outcome" where
  "on_charges_iacm f self =
     (case f (charges_iacm self) of
        Inl (e, c) \<Rightarrow> Inl (e, self\<lparr>charges_iacm := c\<rparr>)
      | Inr c \<Rightarrow> Inr (self\<lparr>charges_iacm := c\<rparr>))"

definition on_charges_elem :: "(charge_dict \<Rightarrow> charge_dict outcome) \<Rightarrow> repository \<Rightarrow> repository outcome" where
  "on_charges_elem f self =
     (case f (charges_elem self) of
        Inl (e, c) \<Rightarrow> Inl (e, self\<lparr>charges_elem := c\<rparr>)
      | Inr c \<Rightarrow> Inr (self\<lparr>charges_elem := c\<rparr>))"

text \<open>
  The body of the first loop of \<^verbatim>\<open>__iterate\<close>, for one molecule id:
  \<^verbatim>\<open>
  with open(path, 'r') as f:
      graph = convert_from(f.read(), data_type)
      for shell in range(1, self.__max_shell + 1):
          for key, partial_charge in _iter_atomic_fragments(graph, self.__nauty, shell):
              callable_iacm(shell, key, partial_charge)
  \<close>
\<close>

definition iterate_iacm :: "env \<Rightarrow> callable \<Rightarrow> int \<Rightarrow> repository \<Rightarrow> repository outcome" where
  "iterate_iacm env callable_iacm molid self =
     (case convert_from_file env molid of
        None \<Rightarrow> Inl (IOError, self)
      | Some graph \<Rightarrow>
          for_each
            (\<lambda>shell. for_generator
               (\<lambda>(key, pc). on_charges_iacm (callable_iacm shell key pc))
               (iter_atomic_fragments env graph shell))
            [1..max_shell self] self)"

text \<open>The body of the second loop, which first rewrites the atom types.\<close>

definition iterate_elem :: "env \<Rightarrow> callable \<Rightarrow> int \<Rightarrow> repository \<Rightarrow> repository outcome" where
  "iterate_elem env callable_elem molid self =
     (case convert_from_file env molid of
        None \<Rightarrow> Inl (IOError, self)
      | Some graph0 \<Rightarrow>
          (case convert_to_elements env (nodes graph0) graph0 of
             Inl e \<Rightarrow> Inl (e, self)
           | Inr graph \<Rightarrow>
               for_each
                 (\<lambda>shell. for_generator
                    (\<lambda>(key, pc). on_charges_elem (callable_elem shell key pc))
                    (iter_atomic_fragments env graph shell))
                 [1..max_shell self] self))"

text \<open>
  \<^verbatim>\<open>Repository.__iterate\<close>.  The two \<^verbatim>\<open>ids_iacm.union(...)\<close> calls build a new set
  that is dropped, and the second one is applied to \<^verbatim>\<open>ids_iacm\<close> as well.
\<close>

definition iterate :: "env \<Rightarrow> repository \<Rightarrow> int \<Rightarrow> callable \<Rightarrow> callable \<Rightarrow> repository outcome" where
  "iterate env self molid callable_iacm callable_elem =
     (let ids_iacm = [molid]; ids_elem = [molid] in
      case iso_iacm self of
        None \<Rightarrow> Inl (AttributeError, self)
      | Some index_iacm \<Rightarrow>
          (let union_iacm = map_option (py_set_union ids_iacm) (index_iacm molid) in
           case iso_elem self of
             None \<Rightarrow> Inl (AttributeError, self)
           | Some index_elem \<Rightarrow>
               (let union_elem = map_option (py_set_union ids_iacm) (index_elem molid) in
                case for_each (iterate_iacm env callable_iacm) ids_iacm self of
                  Inl err \<Rightarrow> Inl err
                | Inr self' \<Rightarrow> for_each (iterate_elem env callable_elem) ids_elem self')))"

text \<open>
  \<^verbatim>\<open>add\<close> passes \<^verbatim>\<open>lambda shell, key, partial_charge: a(shell, key, partial_charge, self.charges_iacm)\<close>
  and the same for \<^verbatim>\<open>self.charges_elem\<close>; \<^verbatim>\<open>a\<close> never raises.  \<^verbatim>\<open>subtract\<close> does
  the same with \<^verbatim>\<open>s\<close>.
\<close>

definition add_callable :: callable where
  "add_callable = (\<lambda>shell key pc repo. Inr (add_a shell key pc repo))"

definition add :: "env \<Rightarrow> repository \<Rightarrow> int \<Rightarrow> repository outcome" where
  "add env self molid = iterate env self molid add_callable add_callable"

definition subtract :: "env \<Rightarrow> repository \<Rightarrow> int \<Rightarrow> repository outcome" where
  "subtract env self molid = iterate env self molid subtract_s subtract_s"

section \<open>Building a repository from a corpus\<close>

text \<open>
  \<^verbatim>\<open>itertools.groupby\<close>: a new group starts whenever the key changes, so only
  consecutive elements with equal keys are grouped.
\<close>

function groupby :: "('a \<Rightarrow> 'k) \<Rightarrow> 'a list \<Rightarrow> ('k \<times> 'a list) list" where
  "groupby key [] = []"
| "groupby key (x # xs) =
     (key x, x # takeWhile (\<lambda>y. key y = key x) xs)
       # groupby key (dropWhile (\<lambda>y. key y = key x) xs)"
  by pat_completeness auto
termination
  by (relation "measure (\<lambda>(key, xs). length xs)") (auto simp: length_dropWhile_le less_Suc_eq_le)

text \<open>
  \<^verbatim>\<open>
  def __make_isomorphics(self, molids, canons):
      isomorphics = defaultdict(list)
      for _, group in groupby(molids, key=lambda molid: canons[molid]):
          isogroup = list(group)
          if len(isogroup) > 1:
              for molid in isogroup:
                  isomorphics[molid] = isogroup
      return isomorphics
  \<close>
  \<^verbatim>\<open>canons[molid]\<close> raises KeyError for a molecule id without a fingerprint.
\<close>

definition make_isomorphics :: "int list \<Rightarrow> (int \<rightharpoonup> fingerprint) \<Rightarrow> error + iso_index" where
  "make_isomorphics molids canons =
     (if \<exists>molid \<in> set molids. canons molid = None then Inl KeyError
      else Inr (fold
        (\<lambda>(k, isogroup) isomorphics.
           if length isogroup > 1
           then fold (\<lambda>molid iso. iso(molid \<mapsto> isogroup)) isogroup isomorphics
           else isomorphics)
        (groupby canons molids) Map.empty))"

text \<open>
  Modelled from the spec: the parallel task-execution utility
  (\<^verbatim>\<open>charge.multiprocessor.MultiProcessor\<close>) is not part of the sources;
  \<^verbatim>\<open>mp.processed(items)\<close> yields the worker's result for every item and a
  failing task aborts the whole stage.  The results are taken in the order of
  the items.
\<close>

definition processed :: "('x \<Rightarrow> error + 'y) \<Rightarrow> 'x list \<Rightarrow> error + 'y list" where
  "processed process xs =
     fold (\<lambda>x acc. case acc of Inl e \<Rightarrow> Inl e
                    | Inr ys \<Rightarrow> (case process x of Inl e \<Rightarrow> Inl e | Inr y \<Rightarrow> Inr (ys @ [y])))
          xs (Inr [])"

text \<open>\<^verbatim>\<open>_ReadWorker.process\<close> and \<^verbatim>\<open>Repository.__read_graphs\<close>.\<close>

definition ReadWorker_process :: "env \<Rightarrow> int \<Rightarrow> error + (int \<times> graph)" where
  "ReadWorker_process env molid =
     (case convert_from_file env molid of None \<Rightarrow> Inl IOError | Some graph \<Rightarrow> Inr (molid, graph))"

definition read_graphs :: "env \<Rightarrow> int list \<Rightarrow> error + (int \<times> graph) list" where
  "read_graphs env molids = processed (ReadWorker_process env) molids"

text \<open>
  \<^verbatim>\<open>_ChargeWorker.process\<close>: the worker's result is an insertion-ordered
  dictionary from fingerprint to the charges in atom order.
\<close>

fun append_charge :: "(fingerprint \<times> charge list) list \<Rightarrow> fingerprint \<Rightarrow> charge \<Rightarrow> (fingerprint \<times> charge list) list" where
  "append_charge [] key pc = [(key, [pc])]"
| "append_charge ((k, vs) # rest) key pc =
     (if k = key then (k, vs @ [pc]) # rest else (k, vs) # append_charge rest key pc)"

definition ChargeWorker_process :: "env \<Rightarrow> int \<Rightarrow> int \<times> graph \<Rightarrow> error + (fingerprint \<times> charge list) list" where
  "ChargeWorker_process env shell item =
     (let gen = iter_atomic_fragments env (snd item) shell in
      case snd gen of
        Some e \<Rightarrow> Inl e
      | None \<Rightarrow> Inr (fold (\<lambda>(key, pc) charges. append_charge charges key pc) (fst gen) []))"

text \<open>
  \<^verbatim>\<open>Repository.__generate_charges\<close>.  \<^verbatim>\<open>charges\<close> is a
  \<^verbatim>\<open>defaultdict(lambda: defaultdict(list))\<close>, so \<^verbatim>\<open>charges[shell][key] += values\<close>
  creates what is missing, and so does the read \<^verbatim>\<open>charges[shell]\<close> of the
  second loop.
\<close>

definition extend_bucket :: "int \<Rightarrow> fingerprint \<times> charge list \<Rightarrow> charge_dict \<Rightarrow> charge_dict" where
  "extend_bucket shell kv charges =
     (let sd = (case items charges shell of None \<Rightarrow> py_defaultdict [] | Some d \<Rightarrow> d);
          bucket = (case items sd (fst kv) of None \<Rightarrow> [] | Some b \<Rightarrow> b)
      in py_setitem charges shell (py_setitem sd (fst kv) (bucket @ snd kv)))"

definition sort_buckets :: "int \<Rightarrow> charge_dict \<Rightarrow> charge_dict" where
  "sort_buckets shell charges =
     (let sd = (case items charges shell of None \<Rightarrow> py_defaultdict [] | Some d \<Rightarrow> d)
      in py_setitem charges shell (sd\<lparr>items := (\<lambda>key. map_option sort (items sd key))\<rparr>))"

fun accumulate_shells :: "env \<Rightarrow> (int \<times> graph) list \<Rightarrow> int list \<Rightarrow> charge_dict \<Rightarrow> error + charge_dict" where
  "accumulate_shells env graphs [] charges = Inr charges"
| "accumulate_shells env graphs (shell # shells) charges =
     (case processed (ChargeWorker_process env shell) graphs of
        Inl e \<Rightarrow> Inl e
      | Inr cs \<Rightarrow>
          accumulate_shells env graphs shells
            (fold (\<lambda>c charges. fold (extend_bucket shell) c charges) cs charges))"

definition generate_charges :: "env \<Rightarrow> repository \<Rightarrow> (int \<times> graph) list \<Rightarrow> error + charge_dict" where
  "generate_charges env self graphs =
     (case accumulate_shells env graphs [min_shell self..max_shell self] new_charge_dict of
        Inl e \<Rightarrow> Inl e
      | Inr charges \<Rightarrow> Inr (fold sort_buckets [min_shell self..max_shell self] charges))"

text \<open>\<^verbatim>\<open>_CanonicalizationWorker.process\<close> and \<^verbatim>\<open>Repository.__make_canons\<close>.\<close>

definition make_canons :: "env \<Rightarrow> (int \<times> graph) list \<Rightarrow> (int \<rightharpoonup> fingerprint)" where
  "make_canons env graphs =
     fold (\<lambda>(molid, graph) canons. canons(molid \<mapsto> canonize env graph)) graphs Map.empty"

text \<open>
  The conversion to plain elements in \<^verbatim>\<open>create_from\<close>, for one entry of
  \<^verbatim>\<open>graphs\<close>:
  \<^verbatim>\<open>
  for _, graph in graphs:
      for v, data in graph.nodes(data=True):
          graph.node[v]['atom_type'] = IACM_MAP[data['atom_type']]
  \<close>
  The first atom type that \<^verbatim>\<open>IACM_MAP\<close> does not hold raises KeyError and aborts
  the build; this plain loop over \<^verbatim>\<open>graphs\<close> is the same sequential composition
  as \<open>processed\<close>.
\<close>

definition convert_item :: "env \<Rightarrow> int \<times> graph \<Rightarrow> error + (int \<times> graph)" where
  "convert_item env item =
     (case convert_to_elements env (nodes (snd item)) (snd item) of
        Inl e \<Rightarrow> Inl e | Inr graph' \<Rightarrow> Inr (fst item, graph'))"

text \<open>
  \<^verbatim>\<open>Repository.create_from\<close>; \<open>molids\<close> is the list of molecule ids read off the
  file names of the data directory, in the order of \<^verbatim>\<open>os.listdir\<close>.
\<close>

definition create_from :: "env \<Rightarrow> int list \<Rightarrow> int \<Rightarrow> int \<Rightarrow> error + repository" where
  "create_from env molids mn mx =
     (case Repository_init env mn mx of Inl e \<Rightarrow> Inl e | Inr repo \<Rightarrow>
      case read_graphs env molids of Inl e \<Rightarrow> Inl e | Inr graphs \<Rightarrow>
      case generate_charges env repo graphs of Inl e \<Rightarrow> Inl e | Inr iacm \<Rightarrow>
      case make_isomorphics molids (make_canons env graphs) of Inl e \<Rightarrow> Inl e | Inr index_iacm \<Rightarrow>
      case processed (convert_item env) graphs of Inl e \<Rightarrow> Inl e | Inr graphs' \<Rightarrow>
      case generate_charges env repo graphs' of Inl e \<Rightarrow> Inl e | Inr elem \<Rightarrow>
      case make_isomorphics molids (make_canons env graphs') of Inl e \<Rightarrow> Inl e | Inr index_elem \<Rightarrow>
        Inr (repo\<lparr>charges_iacm := iacm, iso_iacm := Some index_iacm,
                  charges_elem := elem, iso_elem := Some index_elem\<rparr>))"

section \<open>The solver process\<close>

text \<open>
  A \<^verbatim>\<open>subprocess.Popen\<close> object, with what \<^verbatim>\<open>poll()\<close> answers for it: \<open>None\<close>
  while the process runs, its exit status once it has exited.
\<close>

record popen =
  pid :: nat
  poll :: "int option"

record nauty =
  exe :: string
  process :: "popen option"

text \<open>
  \<^verbatim>\<open>Nauty.__init__\<close>: the executable is checked, \<^verbatim>\<open>__process\<close> is set to
  \<^verbatim>\<open>None\<close>, and \<^verbatim>\<open>__ensure_dreadnaut_running\<close> is called.
  \<^verbatim>\<open>
  def __ensure_dreadnaut_running(self):
      if not self.__process or self.__process.poll():
          self.__process = subprocess.Popen([self.exe], ...)
  \<close>
  A Popen object is always true, \<^verbatim>\<open>None\<close> and \<open>0\<close> are false.  \<open>new_pid\<close>
  is the process id that the operating system gives to a spawned process.
\<close>

definition py_bool :: "int option \<Rightarrow> bool" where
  "py_bool v = (case v of None \<Rightarrow> False | Some n \<Rightarrow> n \<noteq> 0)"

definition ensure_dreadnaut_running :: "nat \<Rightarrow> nauty \<Rightarrow> nauty" where
  "ensure_dreadnaut_running new_pid self =
     (if (case process self of None \<Rightarrow> True | Some p \<Rightarrow> py_bool (poll p))
      then self\<lparr>process := Some \<lparr>pid = new_pid, poll = None\<rparr>\<rparr>
      else self)"

definition Nauty_init :: "bool \<Rightarrow> nat \<Rightarrow> string \<Rightarrow> error + nauty" where
  "Nauty_init executable_found new_pid executable =
     (if \<not> executable_found then Inl ValueError
      else Inr (ensure_dreadnaut_running new_pid \<lparr>exe = executable, process = None\<rparr>))"

text \<open>A running solver process exists.\<close>

definition running :: "nauty \<Rightarrow> bool" where
  "running self = (case process self of None \<Rightarrow> False | Some p \<Rightarrow> poll p = None)"

section \<open>Persistence\<close>

text \<open>
  \<^verbatim>\<open>write\<close> and \<^verbatim>\<open>read\<close> hand every value to the msgpack library and every
  result to a zip archive.  The library is a parameter: what \<^verbatim>\<open>packb\<close> makes of
  the pair of shell bounds, of a store and of an isomorphism index, and what
  \<^verbatim>\<open>unpackb\<close> makes of the bytes of an entry (a tuple comes back as a list, a
  defaultdict as a dict).  The archive is a map from entry names to bytes;
  \<^verbatim>\<open>ZipFile(out, mode='w')\<close> starts an empty one, and \<^verbatim>\<open>zf.read\<close> of a missing
  entry raises KeyError.
\<close>

record 'b msgpack =
  packb_meta :: "int \<times> int \<Rightarrow> 'b"
  packb_charges :: "charge_dict \<Rightarrow> 'b"
  packb_iso :: "iso_index \<Rightarrow> 'b"
  unpackb_meta :: "'b \<Rightarrow> int list"
  unpackb_charges :: "'b \<Rightarrow> charge_dict"
  unpackb_iso :: "'b \<Rightarrow> iso_index"

type_synonym 'b zipfile = "string \<rightharpoonup> 'b"

text \<open>
  \<^verbatim>\<open>
  def write(self, out):
      with ZipFile(out, mode='w') as zf:
          zf.writestr('meta', msgpack.packb((self.__min_shell, self.__max_shell)))
          zf.writestr('charges_iacm', msgpack.packb(self.charges_iacm))
          zf.writestr('charges_elem', msgpack.packb(self.charges_elem))
          zf.writestr('iso_iacm', msgpack.packb(self.__iso_iacm))
          zf.writestr('iso_elem', msgpack.packb(self.__iso_elem))
  \<close>
  The state of the outcome is the archive on disk.
\<close>

definition Repository_write :: "'b msgpack \<Rightarrow> repository \<Rightarrow> 'b zipfile outcome" where
  "Repository_write mp self =
     (let zf1 = [''meta'' \<mapsto> packb_meta mp (min_shell self, max_shell self)];
          zf2 = zf1(''charges_iacm'' \<mapsto> packb_charges mp (charges_iacm self));
          zf3 = zf2(''charges_elem'' \<mapsto> packb_charges mp (charges_elem self))
      in case iso_iacm self of
           None \<Rightarrow> Inl (AttributeError, zf3)
         | Some index_iacm \<Rightarrow>
             (let zf4 = zf3(''iso_iacm'' \<mapsto> packb_iso mp index_iacm)
              in case iso_elem self of
                   None \<Rightarrow> Inl (AttributeError, zf4)
                 | Some index_elem \<Rightarrow> Inr (zf4(''iso_elem'' \<mapsto> packb_iso mp index_elem))))"

text \<open>
  \<^verbatim>\<open>
  def read(location):
      repo = Repository()
      with ZipFile(location, mode='r') as zf:
          repo.__min_shell, repo.__max_shell = msgpack.unpackb(zf.read('meta'), encoding='utf-8')
          repo.charges_iacm = msgpack.unpackb(zf.read('charges_iacm'), encoding='utf-8')
          repo.charges_elem = msgpack.unpackb(zf.read('charges_elem'), encoding='utf-8')
          repo.__iso_iacm = msgpack.unpackb(zf.read('iso_iacm'), encoding='utf-8')
          repo.__iso_elem = msgpack.unpackb(zf.read('iso_elem'), encoding='utf-8')
      return repo
  \<close>
  \<^verbatim>\<open>Repository()\<close> has the default bounds 1 and 7; unpacking a sequence that does
  not hold two values into the two bounds raises ValueError.
\<close>

definition zf_read :: "'b zipfile \<Rightarrow> string \<Rightarrow> error + 'b" where
  "zf_read zf name = (case zf name of None \<Rightarrow> Inl KeyError | Some bytes \<Rightarrow> Inr bytes)"

definition Repository_read :: "'b msgpack \<Rightarrow> env \<Rightarrow> 'b zipfile \<Rightarrow> error + repository" where
  "Repository_read mp env zf =
     (case Repository_init env 1 7 of Inl e \<Rightarrow> Inl e | Inr repo \<Rightarrow>
      case zf_read zf ''meta'' of Inl e \<Rightarrow> Inl e | Inr meta \<Rightarrow>
      case unpackb_meta mp meta of
        [mn, mx] \<Rightarrow>
          (case zf_read zf ''charges_iacm'' of Inl e \<Rightarrow> Inl e | Inr iacm \<Rightarrow>
           case zf_read zf ''charges_elem'' of Inl e \<Rightarrow> Inl e | Inr elem \<Rightarrow>
           case zf_read zf ''iso_iacm'' of Inl e \<Rightarrow> Inl e | Inr index_iacm \<Rightarrow>
           case zf_read zf ''iso_elem'' of Inl e \<Rightarrow> Inl e | Inr index_elem \<Rightarrow>
             Inr (repo\<lparr>min_shell := mn, max_shell := mx,
                       charges_iacm := unpackb_charges mp iacm,
                       charges_elem := unpackb_charges mp elem,
                       iso_iacm := Some (unpackb_iso mp index_iacm),
                       iso_elem := Some (unpackb_iso mp index_elem)\<rparr>))
      | _ \<Rightarrow> Inl ValueError)"

section \<open>Filtered views of a traceable repository\<close>

text \<open>
  Modelled from the spec: the traceable repository that \<^verbatim>\<open>validation.py\<close> reads
  is not the class of \<^verbatim>\<open>repository.py\<close>; its buckets hold
  \<open>(charge, molid, atom)\<close> triples and its isomorphism indices are the
  attributes \<^verbatim>\<open>iso_iacm\<close> and \<^verbatim>\<open>iso_elem\<close>.  These four attributes are all that
  \<^verbatim>\<open>_FilteredRepository\<close> reads.
\<close>

type_synonym traceable_charge = "charge \<times> int \<times> atom"
type_synonym traceable_shell_dict = "(fingerprint, traceable_charge list) pydict"
type_synonym traceable_charge_dict = "(int, traceable_shell_dict) pydict"

record traceable_repository =
  t_charges_iacm :: traceable_charge_dict
  t_charges_elem :: traceable_charge_dict
  t_iso_iacm :: iso_index
  t_iso_elem :: iso_index

text \<open>
  \<^verbatim>\<open>_FilteredCharges\<close> keeps a reference to a shell's dictionary of the repository
  and the list of blocked molecule ids.
  \<^verbatim>\<open>
  def __filtered_copy(self, traceable_charges):
      return [charge for charge, molid, _ in traceable_charges
              if molid not in self.__blocked_molids]
  def __getitem__(self, key):
      if key in self.__charges:
          charges = self.__filtered_copy(self.__charges[key])
          if len(charges) == 0:
              raise KeyError
      else:
          raise KeyError()
      return charges
  \<close>
  The lookup returns the referenced dictionary as it is after the call, next to
  the result.
\<close>

record FilteredCharges =
  fc_charges :: traceable_shell_dict
  fc_blocked_molids :: "int list"

definition filtered_copy :: "int list \<Rightarrow> traceable_charge list \<Rightarrow> charge list" where
  "filtered_copy blocked_molids traceable_charges =
     map fst (filter (\<lambda>(charge, molid, atom). molid \<notin> set blocked_molids) traceable_charges)"

definition FilteredCharges_getitem ::
  "FilteredCharges \<Rightarrow> fingerprint \<Rightarrow> (error + charge list) \<times> traceable_shell_dict" where
  "FilteredCharges_getitem self key =
     (if py_contains (fc_charges self) key then
        (case py_getitem (fc_charges self) key of
           Inl e \<Rightarrow> (Inl e, fc_charges self)
         | Inr (traceable_charges, charges') \<Rightarrow>
             (let charges = filtered_copy (fc_blocked_molids self) traceable_charges
              in if length charges = 0 then (Inl KeyError, charges') else (Inr charges, charges')))
      else (Inl KeyError, fc_charges self))"

text \<open>
  \<^verbatim>\<open>_FilteredRepository.__init__\<close>: the two attributes are plain dictionaries with
  one \<^verbatim>\<open>_FilteredCharges\<close> for every shell key of the repository.
\<close>

record FilteredRepository =
  fr_charges_iacm :: "int \<rightharpoonup> FilteredCharges"
  fr_charges_elem :: "int \<rightharpoonup> FilteredCharges"

definition FilteredRepository_init :: "traceable_repository \<Rightarrow> int \<Rightarrow> FilteredRepository" where
  "FilteredRepository_init repo molid =
     (let iacm_excluded = (case t_iso_iacm repo molid of Some isogroup \<Rightarrow> isogroup | None \<Rightarrow> [molid]);
          elem_excluded = (case t_iso_elem repo molid of Some isogroup \<Rightarrow> isogroup | None \<Rightarrow> [molid])
      in \<lparr>fr_charges_iacm =
             (\<lambda>shell. map_option (\<lambda>d. \<lparr>fc_charges = d, fc_blocked_molids = iacm_excluded\<rparr>)
                        (items (t_charges_iacm repo) shell)),
          fr_charges_elem =
             (\<lambda>shell. map_option (\<lambda>d. \<lparr>fc_charges = d, fc_blocked_molids = elem_excluded\<rparr>)
                        (items (t_charges_elem repo) shell))\<rparr>)"

text \<open>
  The lookups \<^verbatim>\<open>view.charges_iacm[shell][key]\<close> and \<^verbatim>\<open>view.charges_elem[shell][key]\<close>
  on the view of a repository for a molecule id, with the repository as it is
  after the lookup: the shell's dictionary is shared between the view and the
  repository.
\<close>

definition lookup_iacm ::
  "traceable_repository \<Rightarrow> int \<Rightarrow> int \<Rightarrow> fingerprint \<Rightarrow> (error + charge list) \<times> traceable_repository" where
  "lookup_iacm repo molid shell key =
     (case fr_charges_iacm (FilteredRepository_init repo molid) shell of
        None \<Rightarrow> (Inl KeyError, repo)
      | Some fc \<Rightarrow>
          (let (result, d) = FilteredCharges_getitem fc key
           in (result, repo\<lparr>t_charges_iacm := py_setitem (t_charges_iacm repo) shell d\<rparr>)))"

definition lookup_elem ::
  "traceable_repository \<Rightarrow> int \<Rightarrow> int \<Rightarrow> fingerprint \<Rightarrow> (error + charge list) \<times> traceable_repository" where
  "lookup_elem repo molid shell key =
     (case fr_charges_elem (FilteredRepository_init repo molid) shell of
        None \<Rightarrow> (Inl KeyError, repo)
      | Some fc \<Rightarrow>
          (let (result, d) = FilteredCharges_getitem fc key
           in (result, repo\<lparr>t_charges_elem := py_setitem (t_charges_elem repo) shell d\<rparr>)))"

section \<open>Notions used in the statements\<close>

text \<open>The bucket stored for a shell and a fingerprint; empty when there is none.\<close>

definition bucket_of :: "charge_dict \<Rightarrow> int \<Rightarrow> fingerprint \<Rightarrow> charge list" where
  "bucket_of repo shell key =
     (case items repo shell of
        None \<Rightarrow> []
      | Some sd \<Rightarrow> (case items sd key of None \<Rightarrow> [] | Some b \<Rightarrow> b))"

text \<open>Every stored bucket is non-empty and sorted; every stored shell holds a bucket.\<close>

definition buckets_ok :: "charge_dict \<Rightarrow> bool" where
  "buckets_ok repo =
     (\<forall>shell sd key b. items repo shell = Some sd \<longrightarrow> items sd key = Some b \<longrightarrow> b \<noteq> [] \<and> sorted b)"

definition shells_ok :: "charge_dict \<Rightarrow> bool" where
  "shells_ok repo = (\<forall>shell sd. items repo shell = Some sd \<longrightarrow> \<not> py_len_is_0 sd)"

text \<open>
  The calls \<open>(shell, key, partial_charge)\<close> that \<^verbatim>\<open>__iterate\<close> makes for a graph
  whose atoms all carry a partial charge, in the order of the calls.
\<close>

type_synonym observation = "int \<times> fingerprint \<times> charge"

definition fully_charged :: "graph \<Rightarrow> bool" where
  "fully_charged g = (\<forall>v \<in> set (nodes g). partial_charge (node g v) \<noteq> None)"

definition observations :: "env \<Rightarrow> int \<Rightarrow> graph \<Rightarrow> observation list" where
  "observations env mx g =
     concat (map (\<lambda>shell. map (\<lambda>(key, pc). (shell, key, pc)) (fst (iter_atomic_fragments env g shell)))
               [1..mx])"

definition call :: "callable \<Rightarrow> observation \<Rightarrow> charge_dict \<Rightarrow> charge_dict outcome" where
  "call f ob = (case ob of (shell, key, pc) \<Rightarrow> f shell key pc)"

text \<open>The charges that a multiset of observations holds for a shell and a fingerprint.\<close>

definition charges_at :: "observation multiset \<Rightarrow> int \<Rightarrow> fingerprint \<Rightarrow> charge multiset" where
  "charges_at obs shell key =
     image_mset (\<lambda>ob. snd (snd ob)) (filter_mset (\<lambda>ob. fst ob = shell \<and> fst (snd ob) = key) obs)"

text \<open>
  What a molecule contributes according to the specification, stated without
  the code of \<^verbatim>\<open>__iterate\<close>: for each shell in \<open>[1, max_shell]\<close> and each atom of
  the molecule, the fingerprint of the atom's neighbourhood at that shell together
  with the atom's charge; for the element-typed store the same on the graph in
  which the type of every atom is replaced by its element.
\<close>

definition charge_of :: "graph \<Rightarrow> atom \<Rightarrow> charge" where
  "charge_of g v = (case partial_charge (node g v) of None \<Rightarrow> 0 | Some pc \<Rightarrow> pc)"

definition spec_fragment :: "env \<Rightarrow> graph \<Rightarrow> int \<Rightarrow> atom \<Rightarrow> fingerprint \<times> charge" where
  "spec_fragment env g shell v = (canonize_neighborhood env g v shell, charge_of g v)"

definition spec_contribution :: "env \<Rightarrow> int \<Rightarrow> graph \<Rightarrow> observation list" where
  "spec_contribution env mx g =
     concat (map (\<lambda>shell. map (\<lambda>v. (shell, spec_fragment env g shell v)) (nodes g)) [1..mx])"

definition element_of :: "env \<Rightarrow> string \<Rightarrow> string" where
  "element_of env t = (case IACM_MAP env t of None \<Rightarrow> t | Some el \<Rightarrow> el)"

definition spec_element_typed :: "env \<Rightarrow> graph \<Rightarrow> graph" where
  "spec_element_typed env g =
     g\<lparr>node := (\<lambda>v. if v \<in> set (nodes g)
                     then (node g v)\<lparr>atom_type := element_of env (atom_type (node g v))\<rparr>
                     else node g v)\<rparr>"

text \<open>
  A molecule id that can be processed: its file opens, the atoms of its graph
  are pairwise different, every atom carries a partial charge, and every atom
  type is a key of \<^verbatim>\<open>IACM_MAP\<close>.
\<close>

definition processable :: "env \<Rightarrow> int \<Rightarrow> bool" where
  "processable env molid =
     (case convert_from_file env molid of
        None \<Rightarrow> False
      | Some g \<Rightarrow> distinct (nodes g) \<and> fully_charged g
          \<and> (\<forall>v \<in> set (nodes g). IACM_MAP env (atom_type (node g v)) \<noteq> None))"

text \<open>The observations of a molecule id under the two typings.\<close>

definition observations_iacm :: "env \<Rightarrow> int \<Rightarrow> int \<Rightarrow> observation list" where
  "observations_iacm env mx molid =
     (case convert_from_file env molid of None \<Rightarrow> [] | Some g \<Rightarrow> spec_contribution env mx g)"

definition observations_elem :: "env \<Rightarrow> int \<Rightarrow> int \<Rightarrow> observation list" where
  "observations_elem env mx molid =
     (case convert_from_file env molid of
        None \<Rightarrow> []
      | Some g \<Rightarrow> spec_contribution env mx (spec_element_typed env g))"

text \<open>Both isomorphism indices have been assigned.\<close>

definition indexed :: "repository \<Rightarrow> bool" where
  "indexed self = (iso_iacm self \<noteq> None \<and> iso_elem self \<noteq> None)"

text \<open>
  In both stores every stored bucket is non-empty and sorted, and every stored
  shell entry holds a bucket.
\<close>

definition well_kept :: "repository \<Rightarrow> bool" where
  "well_kept self =
     (buckets_ok (charges_iacm self) \<and> shells_ok (charges_iacm self)
      \<and> buckets_ok (charges_elem self) \<and> shells_ok (charges_elem self))"

text \<open>
  Equality of repositories as Python's \<^verbatim>\<open>==\<close> takes it: the shell bounds, the
  items of both stores, shell entry for shell entry and bucket for bucket, and
  both isomorphism indices.
\<close>

definition repository_eq :: "repository \<Rightarrow> repository \<Rightarrow> bool" where
  "repository_eq r1 r2 =
     (min_shell r1 = min_shell r2 \<and> max_shell r1 = max_shell r2
      \<and> contents (charges_iacm r1) = contents (charges_iacm r2)
      \<and> contents (charges_elem r1) = contents (charges_elem r2)
      \<and> iso_iacm r1 = iso_iacm r2 \<and> iso_elem r1 = iso_elem r2)"

text \<open>Sequences of \<^verbatim>\<open>add\<close> and \<^verbatim>\<open>subtract\<close> calls.\<close>

datatype mutation = Add int | Subtract int

fun mutate :: "env \<Rightarrow> mutation \<Rightarrow> repository \<Rightarrow> repository outcome" where
  "mutate env (Add molid) self = add env self molid"
| "mutate env (Subtract molid) self = subtract env self molid"

text \<open>The molecules that contribute after a sequence of calls, starting from \<open>M\<close>.\<close>

fun contributing :: "mutation list \<Rightarrow> int multiset \<Rightarrow> int multiset" where
  "contributing [] M = M"
| "contributing (Add molid # ms) M = contributing ms (add_mset molid M)"
| "contributing (Subtract molid # ms) M = contributing ms (M - {#molid#})"

text \<open>
  Every added molecule can be processed, and every \<^verbatim>\<open>subtract\<close> removes a
  molecule that was added before and still contributes.
\<close>

fun admissible :: "env \<Rightarrow> mutation list \<Rightarrow> int multiset \<Rightarrow> bool" where
  "admissible env [] M = True"
| "admissible env (Add molid # ms) M =
     (processable env molid \<and> admissible env ms (add_mset molid M))"
| "admissible env (Subtract molid # ms) M =
     (molid \<in># M \<and> admissible env ms (M - {#molid#}))"

text \<open>The observations that a multiset of molecules contributes to a store.\<close>

definition contributions_iacm :: "env \<Rightarrow> int \<Rightarrow> int multiset \<Rightarrow> observation multiset" where
  "contributions_iacm env mx M = sum_mset (image_mset (\<lambda>molid. mset (observations_iacm env mx molid)) M)"

definition contributions_elem :: "env \<Rightarrow> int \<Rightarrow> int multiset \<Rightarrow> observation multiset" where
  "contributions_elem env mx M = sum_mset (image_mset (\<lambda>molid. mset (observations_elem env mx molid)) M)"

text \<open>A store without buckets; it may hold empty shell entries.\<close>

definition no_buckets :: "charge_dict \<Rightarrow> bool" where
  "no_buckets repo = (\<forall>shell sd. items repo shell = Some sd \<longrightarrow> items sd = Map.empty)"

text \<open>The isomorphism indices replaced.\<close>

definition with_indices :: "iso_index \<Rightarrow> iso_index \<Rightarrow> repository \<Rightarrow> repository" where
  "with_indices index_iacm index_elem self =
     self\<lparr>iso_iacm := Some index_iacm, iso_elem := Some index_elem\<rparr>"

text \<open>The first atom, in node order, without a partial charge.\<close>

definition first_uncharged :: "graph \<Rightarrow> atom option" where
  "first_uncharged g = find (\<lambda>v. partial_charge (node g v) = None) (nodes g)"

text \<open>The atoms, in node order, that come before the first atom without a partial charge.\<close>

definition charged_prefix :: "graph \<Rightarrow> atom list" where
  "charged_prefix g = takeWhile (\<lambda>v. partial_charge (node g v) \<noteq> None) (nodes g)"


text \<open>
  The stores hold exactly what the molecules \<open>M\<close> contribute: every stored bucket
  is non-empty and sorted, and for every shell and fingerprint the bucket (empty
  when none is stored) is, as a multiset, the charges that \<open>M\<close> contributes there.
\<close>

definition tracks :: "env \<Rightarrow> repository \<Rightarrow> int multiset \<Rightarrow> bool" where
  "tracks env self M =
     (buckets_ok (charges_iacm self) \<and> buckets_ok (charges_elem self)
      \<and> (\<forall>shell key. mset (bucket_of (charges_iacm self) shell key) =
             charges_at (contributions_iacm env (max_shell self) M) shell key)
      \<and> (\<forall>shell key. mset (bucket_of (charges_elem self) shell key) =
             charges_at (contributions_elem env (max_shell self) M) shell key))"

text \<open>A change of the state applied to the result of a call, raised or returned.\<close>

definition map_outcome :: "('s \<Rightarrow> 't) \<Rightarrow> 's outcome \<Rightarrow> 't outcome" where
  "map_outcome h out = (case out of Inl (e, st) \<Rightarrow> Inl (e, h st) | Inr st \<Rightarrow> Inr (h st))"

text \<open>The exception that a call raised, if any.\<close>

definition raised :: "'s outcome \<Rightarrow> error option" where
  "raised out = (case out of Inl (e, st) \<Rightarrow> Some e | Inr st \<Rightarrow> None)"

text \<open>
  What the specification says of a filtered view: the exclusion set is the
  molecule id alone when the isomorphism index does not hold it, the recorded
  group otherwise; a lookup gives the charges of the bucket's entries whose
  molecule id is not excluded, and "key not found" when none is left or when
  the shell or the bucket does not exist.
\<close>

definition spec_exclusion_set :: "iso_index \<Rightarrow> int \<Rightarrow> int set" where
  "spec_exclusion_set index molid = (case index molid of None \<Rightarrow> {molid} | Some isogroup \<Rightarrow> set isogroup)"

definition spec_filtered_lookup ::
  "traceable_charge_dict \<Rightarrow> int set \<Rightarrow> int \<Rightarrow> fingerprint \<Rightarrow> error + charge list" where
  "spec_filtered_lookup store excluded shell key =
     (case items store shell of
        None \<Rightarrow> Inl KeyError
      | Some d \<Rightarrow>
          (case items d key of
             None \<Rightarrow> Inl KeyError
           | Some entries \<Rightarrow>
               (let kept = filter (\<lambda>entry. fst (snd entry) \<notin> excluded) entries
                in if kept = [] then Inl KeyError else Inr (map fst kept))))"

text \<open>
  The library round-trips the five values of a repository: unpacking what was
  packed gives the two bounds as a list, stores with the same items, and the
  same indices.
\<close>

definition msgpack_round_trips :: "'b msgpack \<Rightarrow> repository \<Rightarrow> bool" where
  "msgpack_round_trips mp R =
     (unpackb_meta mp (packb_meta mp (min_shell R, max_shell R)) = [min_shell R, max_shell R]
      \<and> contents (unpackb_charges mp (packb_charges mp (charges_iacm R))) = contents (charges_iacm R)
      \<and> contents (unpackb_charges mp (packb_charges mp (charges_elem R))) = contents (charges_elem R)
      \<and> (\<forall>index. iso_iacm R = Some index \<longrightarrow> unpackb_iso mp (packb_iso mp index) = index)
      \<and> (\<forall>index. iso_elem R = Some index \<longrightarrow> unpackb_iso mp (packb_iso mp index) = index))"

section \<open>Concrete inputs\<close>

text \<open>A store with a single bucket of one observation at shell 1 and two buckets at shell 2.\<close>

definition store_two_shells :: charge_dict where
  "store_two_shells =
     \<lparr>items = [1 \<mapsto> \<lparr>items = [''k'' \<mapsto> [1/2]], default_factory = None\<rparr>,
               2 \<mapsto> \<lparr>items = [''k'' \<mapsto> [1/2], ''j'' \<mapsto> [1/10, 1/5]], default_factory = None\<rparr>],
      default_factory = None\<rparr>"

text \<open>
  Molecules of a single atom, and an environment that holds three files of them.
  For graphs without bonds the atom type of the core is a canonical fingerprint
  of every neighbourhood, and the atom types in node order are one of the graph.
\<close>

definition atom_C :: node_data where
  "atom_C = \<lparr>atom_type = ''C'', partial_charge = Some (1/10)\<rparr>"

definition atom_HC :: node_data where
  "atom_HC = \<lparr>atom_type = ''HC'', partial_charge = Some (1/40)\<rparr>"

definition graph_C :: graph where
  "graph_C = \<lparr>nodes = [0], node = (\<lambda>v. atom_C), edges = []\<rparr>"

definition graph_HC :: graph where
  "graph_HC = \<lparr>nodes = [0], node = (\<lambda>v. atom_HC), edges = []\<rparr>"

definition example_env :: env where
  "example_env =
     \<lparr>canonize_neighborhood = (\<lambda>g v shell. atom_type (node g v)),
      canonize = (\<lambda>g. concat (map (\<lambda>v. atom_type (node g v)) (nodes g))),
      IACM_MAP = [''C'' \<mapsto> ''C'', ''HC'' \<mapsto> ''H''],
      convert_from_file = [1 \<mapsto> graph_C, 2 \<mapsto> graph_HC, 3 \<mapsto> graph_C],
      executable_ok = True\<rparr>"

text \<open>A solver object whose process has exited with status 0.\<close>

definition exited_nauty :: nauty where
  "exited_nauty = \<lparr>exe = ''dreadnaut'', process = Some \<lparr>pid = 7, poll = Some 0\<rparr>\<rparr>"

text \<open>
  The repository that \<^verbatim>\<open>create_from\<close> builds from a directory without molecule
  files for \<open>min_shell = max_shell = 1\<close>, the same after \<^verbatim>\<open>add\<close> of molecule 1
  and after the following \<^verbatim>\<open>subtract\<close> of molecule 1.
\<close>

definition empty_corpus_repository :: repository where
  "empty_corpus_repository =
     \<lparr>min_shell = 1, max_shell = 1,
      charges_iacm = \<lparr>items = [1 \<mapsto> py_defaultdict []], default_factory = Some (py_defaultdict [])\<rparr>,
      charges_elem = \<lparr>items = [1 \<mapsto> py_defaultdict []], default_factory = Some (py_defaultdict [])\<rparr>,
      iso_iacm = Some Map.empty, iso_elem = Some Map.empty\<rparr>"

definition after_add :: repository where
  "after_add =
     \<lparr>min_shell = 1, max_shell = 1,
      charges_iacm = \<lparr>items = [1 \<mapsto> \<lparr>items = [''C'' \<mapsto> [1/10]], default_factory = Some []\<rparr>],
                      default_factory = Some (py_defaultdict [])\<rparr>,
      charges_elem = \<lparr>items = [1 \<mapsto> \<lparr>items = [''C'' \<mapsto> [1/10]], default_factory = Some []\<rparr>],
                      default_factory = Some (py_defaultdict [])\<rparr>,
      iso_iacm = Some Map.empty, iso_elem = Some Map.empty\<rparr>"

definition after_subtract :: repository where
  "after_subtract =
     \<lparr>min_shell = 1, max_shell = 1,
      charges_iacm = \<lparr>items = Map.empty, default_factory = Some (py_defaultdict [])\<rparr>,
      charges_elem = \<lparr>items = Map.empty, default_factory = Some (py_defaultdict [])\<rparr>,
      iso_iacm = Some Map.empty, iso_elem = Some Map.empty\<rparr>"

text \<open>
  What the constructor call \<^verbatim>\<open>Repository(1, 1)\<close> returns: empty stores, and the
  two index attributes never assigned.
\<close>

definition new_repository :: repository where
  "new_repository =
     \<lparr>min_shell = 1, max_shell = 1,
      charges_iacm = new_charge_dict, charges_elem = new_charge_dict,
      iso_iacm = None, iso_elem = None\<rparr>"

text \<open>
  An isomorphism index that records the molecules 1 and 3 as isomorphic, and an
  environment in which only the file of molecule 1 exists.
\<close>

definition index_1_3 :: iso_index where
  "index_1_3 = [1 \<mapsto> [1, 3], 3 \<mapsto> [1, 3]]"

definition env_only_file_1 :: env where
  "env_only_file_1 = example_env\<lparr>convert_from_file := [1 \<mapsto> graph_C]\<rparr>"





text \<open>
  A traceable repository with one bucket, filled by the molecules 1, 2 and 3, of
  which 1 and 3 are recorded as isomorphic; its stores are defaultdicts.
\<close>

definition traceable_example :: traceable_repository where
  "traceable_example =
     \<lparr>t_charges_iacm =
        \<lparr>items = [1 \<mapsto> \<lparr>items = [''C'' \<mapsto> [(1/10, 1, 0), (1/5, 2, 0), (1/10, 3, 0)]],
                           default_factory = Some []\<rparr>],
         default_factory = Some (py_defaultdict [])\<rparr>,
      t_charges_elem =
        \<lparr>items = [1 \<mapsto> \<lparr>items = [''C'' \<mapsto> [(1/10, 1, 0), (1/5, 2, 0), (1/10, 3, 0)]],
                           default_factory = Some []\<rparr>],
         default_factory = Some (py_defaultdict [])\<rparr>,
      t_iso_iacm = index_1_3, t_iso_elem = index_1_3\<rparr>"

text \<open>
  A stand-in for the library whose bytes are the packed values themselves, with
  every dictionary unpacked as a plain dict.
\<close>

datatype example_bytes = Meta_bytes "int list" | Charges_bytes charge_dict | Iso_bytes iso_index

definition as_plain_dicts :: "charge_dict \<Rightarrow> charge_dict" where
  "as_plain_dicts c =
     \<lparr>items = (\<lambda>shell. map_option (\<lambda>d. \<lparr>items = items d, default_factory = None\<rparr>) (items c shell)),
      default_factory = None\<rparr>"

definition example_msgpack :: "example_bytes msgpack" where
  "example_msgpack =
     \<lparr>packb_meta = (\<lambda>(mn, mx). Meta_bytes [mn, mx]),
      packb_charges = Charges_bytes,
      packb_iso = Iso_bytes,
      unpackb_meta = (\<lambda>b. case b of Meta_bytes l \<Rightarrow> l | _ \<Rightarrow> []),
      unpackb_charges = (\<lambda>b. case b of Charges_bytes c \<Rightarrow> as_plain_dicts c | _ \<Rightarrow> py_dict),
      unpackb_iso = (\<lambda>b. case b of Iso_bytes i \<Rightarrow> i | _ \<Rightarrow> Map.empty)\<rparr>"

text \<open>
  The archive that \<^verbatim>\<open>write\<close> leaves behind for \<open>new_repository\<close>: the entries
  written before the first index attribute is read.
\<close>

definition archive_without_indices :: "example_bytes zipfile" where
  "archive_without_indices =
     [''meta'' \<mapsto> Meta_bytes [1, 1],
      ''charges_iacm'' \<mapsto> Charges_bytes new_charge_dict,
      ''charges_elem'' \<mapsto> Charges_bytes new_charge_dict]"

section \<open>Binary search on sorted buckets\<close>

lemma bisect_left_loop_spec:
  assumes "sorted a" "lo \<le> hi" "hi \<le> length a"
    and "\<forall>i<lo. a ! i < x" and "\<forall>i. hi \<le> i \<and> i < length a \<longrightarrow> x \<le> a ! i"
  shows "lo \<le> bisect_left_loop a x lo hi \<and> bisect_left_loop a x lo hi \<le> hi
       \<and> (\<forall>i<bisect_left_loop a x lo hi. a ! i < x)
       \<and> (\<forall>i. bisect_left_loop a x lo hi \<le> i \<and> i < length a \<longrightarrow> x \<le> a ! i)"
  using assms
proof (induction a x lo hi rule: bisect_left_loop.induct)
  case (1 a x lo hi)
  show ?case
  proof (cases "lo < hi")
    case False
    have "bisect_left_loop a x lo hi = lo"
      using False by (subst bisect_left_loop.simps) simp
    with "1.prems" False show ?thesis by simp
  next
    case True
    define mid where "mid = (lo + hi) div 2"
    have mid: "lo \<le> mid" "mid < hi" using True by (auto simp: mid_def)
    show ?thesis
    proof (cases "a ! mid < x")
      case lt: True
      have below: "\<forall>i<mid + 1. a ! i < x"
      proof (intro allI impI)
        fix i assume "i < mid + 1"
        then have "i \<le> mid" by simp
        moreover have "mid < length a" using mid "1.prems"(3) by simp
        ultimately have "a ! i \<le> a ! mid"
          using "1.prems"(1) by (simp add: sorted_nth_mono)
        with lt show "a ! i < x" by simp
      qed
      have eq: "bisect_left_loop a x lo hi = bisect_left_loop a x (mid + 1) hi"
        using True lt by (simp add: bisect_left_loop.simps [of a x lo hi] mid_def Let_def)
      have "mid + 1 \<le> bisect_left_loop a x (mid + 1) hi \<and> bisect_left_loop a x (mid + 1) hi \<le> hi
          \<and> (\<forall>i<bisect_left_loop a x (mid + 1) hi. a ! i < x)
          \<and> (\<forall>i. bisect_left_loop a x (mid + 1) hi \<le> i \<and> i < length a \<longrightarrow> x \<le> a ! i)"
        using "1.IH"(1) [OF True mid_def lt "1.prems"(1) _ "1.prems"(3) below "1.prems"(5)] mid
        by simp
      with eq mid show ?thesis by simp
    next
      case ge: False
      have above: "\<forall>i. mid \<le> i \<and> i < length a \<longrightarrow> x \<le> a ! i"
      proof (intro allI impI)
        fix i assume "mid \<le> i \<and> i < length a"
        then have "a ! mid \<le> a ! i"
          using "1.prems"(1) by (simp add: sorted_nth_mono)
        with ge show "x \<le> a ! i" by simp
      qed
      have eq: "bisect_left_loop a x lo hi = bisect_left_loop a x lo mid"
        using True ge by (simp add: bisect_left_loop.simps [of a x lo hi] mid_def Let_def)
      have "lo \<le> bisect_left_loop a x lo mid \<and> bisect_left_loop a x lo mid \<le> mid
          \<and> (\<forall>i<bisect_left_loop a x lo mid. a ! i < x)
          \<and> (\<forall>i. bisect_left_loop a x lo mid \<le> i \<and> i < length a \<longrightarrow> x \<le> a ! i)"
        using "1.IH"(2) [OF True mid_def ge "1.prems"(1) _ _ "1.prems"(4) above] mid "1.prems"(3)
        by simp
      with eq mid show ?thesis by simp
    qed
  qed
qed

lemma bisect_left_sorted:
  assumes "sorted a"
  shows "bisect_left a x \<le> length a
       \<and> (\<forall>i<bisect_left a x. a ! i < x)
       \<and> (\<forall>i. bisect_left a x \<le> i \<and> i < length a \<longrightarrow> x \<le> a ! i)"
  using bisect_left_loop_spec [of a 0 "length a" x] assms
  by (simp add: bisect_left_def)

lemma insort_between:
  "\<forall>y\<in>set xs. y < x \<Longrightarrow> \<forall>y\<in>set ys. x \<le> y \<Longrightarrow> insort x (xs @ ys) = xs @ x # ys"
  for x :: "'a::linorder"
proof (induction xs)
  case Nil
  then show ?case by (cases ys) auto
next
  case (Cons z xs)
  then show ?case by auto
qed

lemma insort_left_sorted:
  assumes "sorted a"
  shows "insort_left a x = insort x a"
proof -
  define r where "r = bisect_left a x"
  have r: "r \<le> length a" "\<forall>i<r. a ! i < x" "\<forall>i. r \<le> i \<and> i < length a \<longrightarrow> x \<le> a ! i"
    using bisect_left_sorted [OF assms, of x] by (simp_all add: r_def)
  have lo: "\<forall>y\<in>set (take r a). y < x"
    using r(1,2) by (auto simp: in_set_conv_nth)
  have hi: "\<forall>y\<in>set (drop r a). x \<le> y"
    using r(1,3) by (auto simp: in_set_conv_nth)
  have "insort x (take r a @ drop r a) = take r a @ x # drop r a"
    by (rule insort_between [OF lo hi])
  then show ?thesis by (simp add: insort_left_def r_def Let_def)
qed

lemma list_pop_bisect_left:
  assumes "sorted a" "x \<in> set a"
  shows "list_pop a (bisect_left a x) = Inr (remove1 x a)"
proof -
  define r where "r = bisect_left a x"
  have r: "r \<le> length a" "\<forall>i<r. a ! i < x" "\<forall>i. r \<le> i \<and> i < length a \<longrightarrow> x \<le> a ! i"
    using bisect_left_sorted [OF assms(1), of x] by (simp_all add: r_def)
  obtain j where j: "j < length a" "a ! j = x"
    using assms(2) by (auto simp: in_set_conv_nth)
  have "r \<le> j"
  proof (rule ccontr)
    assume "\<not> r \<le> j"
    then have "a ! j < x" using r(2) by simp
    with j show False by simp
  qed
  then have rlt: "r < length a" using j by simp
  have "a ! r \<le> a ! j" using assms(1) \<open>r \<le> j\<close> j(1) by (simp add: sorted_nth_mono)
  moreover have "x \<le> a ! r" using r(3) rlt by simp
  ultimately have ar: "a ! r = x" using j by simp
  have notin: "x \<notin> set (take r a)"
    using r(1,2) by (auto simp: in_set_conv_nth)
  have "a = take r a @ x # drop (Suc r) a"
    using rlt ar by (metis id_take_nth_drop)
  then have "remove1 x a = remove1 x (take r a @ x # drop (Suc r) a)" by simp
  also have "\<dots> = take r a @ drop (Suc r) a"
    using notin by (simp add: remove1_append)
  finally show ?thesis using rlt by (simp add: list_pop_def r_def)
qed

lemma add_a_bucket_of:
  "bucket_of (add_a shell key pc repo) shell' key' =
     (if shell' = shell \<and> key' = key then insort_left (bucket_of repo shell key) pc
      else bucket_of repo shell' key')"
  by (auto simp: add_a_def bucket_of_def py_setitem_def py_dict_def Let_def split: option.splits)

lemma insort_left_nonempty: "insort_left b pc \<noteq> []"
  by (simp add: insort_left_def Let_def)

lemma buckets_ok_sorted: "buckets_ok repo \<Longrightarrow> sorted (bucket_of repo shell key)"
  by (auto simp: buckets_ok_def bucket_of_def split: option.splits)

lemma add_a_buckets_ok:
  assumes "buckets_ok repo"
  shows "buckets_ok (add_a shell key pc repo)"
  unfolding buckets_ok_def
proof (intro allI impI)
  fix shell' sd' key' b
  assume sd': "items (add_a shell key pc repo) shell' = Some sd'" and b: "items sd' key' = Some b"
  have bo: "bucket_of (add_a shell key pc repo) shell' key' = b"
    using sd' b by (simp add: bucket_of_def)
  show "b \<noteq> [] \<and> sorted b"
  proof (cases "shell' = shell \<and> key' = key")
    case True
    then have "b = insort_left (bucket_of repo shell key) pc"
      using bo by (simp add: add_a_bucket_of)
    then show ?thesis
      using buckets_ok_sorted [OF assms, of shell key]
      by (simp add: insort_left_nonempty insort_left_sorted sorted_insort)
  next
    case False
    then have "items repo shell' \<noteq> None \<and> (\<exists>sd. items repo shell' = Some sd \<and> items sd key' = Some b)"
      using sd' b
      by (auto simp: add_a_def py_setitem_def py_dict_def Let_def split: option.splits if_splits)
    then show ?thesis using assms by (auto simp: buckets_ok_def)
  qed
qed

lemma add_a_shells_ok:
  assumes "shells_ok repo"
  shows "shells_ok (add_a shell key pc repo)"
  using assms
  by (auto simp: shells_ok_def add_a_def py_setitem_def py_len_is_0_def Let_def split: if_splits)

lemma subtract_s_present:
  assumes sd: "items repo shell = Some sd" and b: "items sd key = Some b"
    and "sorted b" "pc \<in> set b"
  shows "subtract_s shell key pc repo =
           Inr (let sd' = (if remove1 pc b = [] then py_delitem sd key
                           else py_setitem sd key (remove1 pc b))
                in if py_len_is_0 sd' then py_delitem repo shell else py_setitem repo shell sd')"
proof -
  have same: "repo\<lparr>items := (items repo)(shell \<mapsto> sd)\<rparr> = repo"
    using sd by (simp add: fun_upd_idem)
  show ?thesis
    using assms list_pop_bisect_left [OF assms(3,4)] same
    by (simp add: subtract_s_def py_getitem_def py_setitem_def py_delitem_def Let_def
        py_len_is_0_def)
qed

section \<open>Removing the last observation of a bucket\<close>

text \<open>
  C8. When \<^verbatim>\<open>subtract\<close>'s step removes the only observation of a bucket, the
  call returns normally, the bucket is gone from the shell, the shell entry is
  gone as well when that bucket was its only one, and otherwise the shell keeps
  every other bucket unchanged; every other shell entry is unchanged.
\<close>

theorem subtract_s_last_observation:
  assumes "items repo shell = Some sd" and "items sd key = Some [pc]"
  shows "\<exists>repo'. subtract_s shell key pc repo = Inr repo'
     \<and> (\<forall>sd'. items repo' shell = Some sd' \<longrightarrow> items sd' key = None)
     \<and> ((\<forall>k. k \<noteq> key \<longrightarrow> items sd k = None) \<longrightarrow> items repo' shell = None)
     \<and> ((\<exists>k. k \<noteq> key \<and> items sd k \<noteq> None) \<longrightarrow>
          (\<exists>sd'. items repo' shell = Some sd' \<and> default_factory sd' = default_factory sd
                \<and> (\<forall>k. k \<noteq> key \<longrightarrow> items sd' k = items sd k)))
     \<and> (\<forall>shell'. shell' \<noteq> shell \<longrightarrow> items repo' shell' = items repo shell')
     \<and> default_factory repo' = default_factory repo"
proof -
  have eq: "subtract_s shell key pc repo =
      Inr (if py_len_is_0 (py_delitem sd key) then py_delitem repo shell
           else py_setitem repo shell (py_delitem sd key))"
    using subtract_s_present [OF assms, of pc] by (simp add: Let_def)
  have empty_iff: "py_len_is_0 (py_delitem sd key) \<longleftrightarrow> (\<forall>k. k \<noteq> key \<longrightarrow> items sd k = None)"
    by (auto simp: py_len_is_0_def py_delitem_def dom_def)
  show ?thesis
    unfolding eq using empty_iff
    by (auto simp: py_delitem_def py_setitem_def)
qed

theorem subtract_s_last_observation_witness:
  "\<exists>repo'. subtract_s 1 ''k'' (1/2) store_two_shells = Inr repo'
     \<and> items repo' 1 = None \<and> items repo' 2 = items store_two_shells 2"
proof -
  define sd1 :: shell_dict where "sd1 = \<lparr>items = [''k'' \<mapsto> [1/2]], default_factory = None\<rparr>"
  have h1: "items store_two_shells 1 = Some sd1"
    by (simp add: store_two_shells_def sd1_def)
  have h2: "items sd1 ''k'' = Some [1/2]"
    by (simp add: sd1_def)
  have h3: "\<forall>k. k \<noteq> ''k'' \<longrightarrow> items sd1 k = None"
    by (simp add: sd1_def)
  from subtract_s_last_observation [OF h1 h2] obtain repo' where
    r: "subtract_s 1 ''k'' (1/2) store_two_shells = Inr repo'"
      "(\<forall>k. k \<noteq> ''k'' \<longrightarrow> items sd1 k = None) \<longrightarrow> items repo' 1 = None"
      "\<forall>shell'. shell' \<noteq> 1 \<longrightarrow> items repo' shell' = items store_two_shells shell'"
    by blast
  from r(2) h3 have "items repo' 1 = None" by blast
  moreover from r(3) have "items repo' 2 = items store_two_shells 2" by simp
  ultimately show ?thesis using r(1) by blast
qed

section \<open>Evaluating the code on concrete inputs\<close>

lemma bisect_left_Nil: "bisect_left [] x = 0"
  by (simp add: bisect_left_def bisect_left_loop.simps)

lemma insort_left_Nil: "insort_left [] x = [x]"
  by (simp add: insort_left_def bisect_left_Nil)

lemmas example_defs =
  example_env_def graph_C_def graph_HC_def atom_C_def atom_HC_def

lemmas build_defs =
  create_from_def convert_item_def Repository_init_def read_graphs_def ReadWorker_process_def make_canons_def
  make_isomorphics_def generate_charges_def processed_def ChargeWorker_process_def
  iter_atomic_fragments_def extend_bucket_def sort_buckets_def new_charge_dict_def
  py_defaultdict_def py_setitem_def Let_def

lemmas mutation_defs =
  add_def add_callable_def subtract_def iterate_def iterate_iacm_def iterate_elem_def for_generator_def
  on_charges_iacm_def on_charges_elem_def iter_atomic_fragments_def add_a_def
  py_setitem_def py_dict_def Let_def

section \<open>The isomorphism index of a corpus build\<close>

text \<open>
  C1. The claim asks that molecule ids are grouped by equal whole-molecule
  fingerprint.  The code groups consecutive ids of the directory listing only:
  for the listing 1, 2, 3, where the files of the molecules 1 and 3 hold the
  same graph and molecule 2 differs, the build returns empty isomorphism
  indices for both typings, so neither 1 nor 3 has a group.
\<close>

theorem create_from_misses_separated_isomorphs:
  "convert_from_file example_env 1 = convert_from_file example_env 3
   \<and> (\<exists>r. create_from example_env [1, 2, 3] 1 1 = Inr r
          \<and> iso_iacm r = Some Map.empty \<and> iso_elem r = Some Map.empty)"
  by (simp add: build_defs example_defs)

text \<open>With the two equal molecules next to each other in the listing, both are indexed.\<close>

lemma create_from_groups_adjacent_isomorphs:
  "\<exists>r. create_from example_env [1, 3, 2] 1 1 = Inr r
     \<and> iso_iacm r = Some [1 \<mapsto> [1, 3], 3 \<mapsto> [1, 3]]
     \<and> iso_elem r = Some [1 \<mapsto> [1, 3], 3 \<mapsto> [1, 3]]"
  by (simp add: build_defs example_defs)

section \<open>Restarting the solver process\<close>

lemma ensure_dreadnaut_running_spawns:
  assumes "process self = None \<or> (\<exists>p c. process self = Some p \<and> poll p = Some c \<and> c \<noteq> 0)"
  shows "ensure_dreadnaut_running new_pid self = self\<lparr>process := Some \<lparr>pid = new_pid, poll = None\<rparr>\<rparr>"
  using assms by (auto simp: ensure_dreadnaut_running_def py_bool_def)

lemma ensure_dreadnaut_running_live:
  assumes "running self"
  shows "ensure_dreadnaut_running new_pid self = self"
  using assms by (auto simp: ensure_dreadnaut_running_def py_bool_def running_def split: option.splits)

text \<open>
  C4. The claim asks for a fresh process whenever the existing one has exited,
  with any exit status.  For a process that has exited with status 0,
  \<^verbatim>\<open>poll()\<close> answers 0, which is false in the condition, so the call changes
  nothing and no running process exists after it.
\<close>

theorem ensure_dreadnaut_running_exit_status_0:
  "ensure_dreadnaut_running 8 exited_nauty = exited_nauty
   \<and> \<not> running (ensure_dreadnaut_running 8 exited_nauty)"
  by (simp add: ensure_dreadnaut_running_def exited_nauty_def py_bool_def running_def)

section \<open>The range of the shell keys\<close>

text \<open>
  C6. The claim asks that every shell key lies within
  \<open>[min_shell, max_shell]\<close>, also after \<^verbatim>\<open>add\<close>.  For a repository built with
  \<open>min_shell = max_shell = 2\<close>, adding a molecule stores buckets under the shell
  keys 1 and 2 in both stores: \<^verbatim>\<open>__iterate\<close> starts at shell 1 whatever
  \<open>min_shell\<close> is.
\<close>

theorem add_stores_shell_below_min_shell:
  "\<exists>r r'. create_from example_env [] 2 2 = Inr r \<and> add example_env r 1 = Inr r'
     \<and> min_shell r' = 2 \<and> max_shell r' = 2
     \<and> items (charges_iacm r') 1 \<noteq> None \<and> items (charges_elem r') 1 \<noteq> None"
  by (simp add: build_defs mutation_defs example_defs insort_left_Nil upto.simps)

section \<open>\<^verbatim>\<open>__iterate\<close> on a fully charged molecule\<close>

lemma for_each_append:
  "for_each body (xs @ ys) st =
     (case for_each body xs st of Inl err \<Rightarrow> Inl err | Inr st' \<Rightarrow> for_each body ys st')"
  by (induction xs arbitrary: st) (auto split: sum.splits)

lemma for_each_map: "for_each body (map h xs) = for_each (\<lambda>x. body (h x)) xs"
proof (rule ext)
  fix st show "for_each body (map h xs) st = for_each (\<lambda>x. body (h x)) xs st"
    by (induction xs arbitrary: st) (auto split: sum.splits)
qed

lemma for_each_Cons_fun:
  "for_each body (x # xs) =
     (\<lambda>st. case body x st of Inl err \<Rightarrow> Inl err | Inr st' \<Rightarrow> for_each body xs st')"
  by (rule ext) simp

lemma for_each_Nil_fun: "for_each body [] = Inr"
  by (rule ext) simp

lemma on_charges_iacm_bind:
  "(case on_charges_iacm F self of Inl err \<Rightarrow> Inl err | Inr self' \<Rightarrow> on_charges_iacm G self')
     = on_charges_iacm (\<lambda>c. case F c of Inl err \<Rightarrow> Inl err | Inr c' \<Rightarrow> G c') self"
  by (auto simp: on_charges_iacm_def split: sum.splits prod.splits)

lemma on_charges_elem_bind:
  "(case on_charges_elem F self of Inl err \<Rightarrow> Inl err | Inr self' \<Rightarrow> on_charges_elem G self')
     = on_charges_elem (\<lambda>c. case F c of Inl err \<Rightarrow> Inl err | Inr c' \<Rightarrow> G c') self"
  by (auto simp: on_charges_elem_def split: sum.splits prod.splits)

lemma on_charges_iacm_Inr: "on_charges_iacm Inr = Inr"
  by (rule ext) (simp add: on_charges_iacm_def)

lemma on_charges_elem_Inr: "on_charges_elem Inr = Inr"
  by (rule ext) (simp add: on_charges_elem_def)

lemma on_charges_iacm_for_each:
  "for_each (\<lambda>x. on_charges_iacm (F x)) xs = on_charges_iacm (for_each F xs)"
proof (induction xs)
  case Nil
  show ?case by (simp add: for_each_Nil_fun on_charges_iacm_Inr)
next
  case (Cons x xs)
  show ?case by (simp add: Cons.IH on_charges_iacm_bind for_each_Cons_fun cong: sum.case_cong)
qed

lemma on_charges_elem_for_each:
  "for_each (\<lambda>x. on_charges_elem (F x)) xs = on_charges_elem (for_each F xs)"
proof (induction xs)
  case Nil
  show ?case by (simp add: for_each_Nil_fun on_charges_elem_Inr)
next
  case (Cons x xs)
  show ?case by (simp add: Cons.IH on_charges_elem_bind for_each_Cons_fun cong: sum.case_cong)
qed

lemma for_each_append_fun:
  "for_each body (xs @ ys) =
     (\<lambda>st. case for_each body xs st of Inl err \<Rightarrow> Inl err | Inr st' \<Rightarrow> for_each body ys st')"
  by (rule ext) (rule for_each_append)

lemma iter_from_charged:
  "\<forall>v \<in> set vs. partial_charge (node g v) \<noteq> None \<Longrightarrow>
   snd (iter_atomic_fragments_from env g shell vs) = None"
  by (induction vs) (auto simp: Let_def split: option.splits)

lemma iter_atomic_fragments_charged:
  "fully_charged g \<Longrightarrow> snd (iter_atomic_fragments env g shell) = None"
  by (simp add: iter_atomic_fragments_def fully_charged_def iter_from_charged)

lemma shell_loop_iacm:
  assumes "\<And>shell. snd (gen shell) = None"
  shows "for_each (\<lambda>shell. for_generator (\<lambda>(key, pc). on_charges_iacm (f shell key pc)) (gen shell))
           shells self
       = on_charges_iacm
           (for_each (call f)
              (concat (map (\<lambda>shell. map (\<lambda>(key, pc). (shell, key, pc)) (fst (gen shell))) shells)))
           self"
proof (induction shells arbitrary: self)
  case Nil
  show ?case by (simp add: for_each_Nil_fun on_charges_iacm_Inr)
next
  case (Cons shell shells)
  have inner: "for_generator (\<lambda>(key, pc). on_charges_iacm (f shell key pc)) (gen shell) st
      = on_charges_iacm (for_each (call f) (map (\<lambda>(key, pc). (shell, key, pc)) (fst (gen shell)))) st" for st
  proof -
    have "for_each (\<lambda>(key, pc). on_charges_iacm (f shell key pc)) (fst (gen shell)) st
        = on_charges_iacm (for_each (\<lambda>x. call f (case x of (key, pc) \<Rightarrow> (shell, key, pc))) (fst (gen shell))) st"
      using on_charges_iacm_for_each [of "\<lambda>x. call f (case x of (key, pc) \<Rightarrow> (shell, key, pc))" "fst (gen shell)"]
      by (simp add: call_def case_prod_unfold)
    then show ?thesis
      using assms [of shell]
      by (simp add: for_generator_def for_each_map split: sum.splits)
  qed
  show ?case
    by (simp add: inner Cons.IH for_each_append_fun on_charges_iacm_bind cong: sum.case_cong)
qed

lemma shell_loop_elem:
  assumes "\<And>shell. snd (gen shell) = None"
  shows "for_each (\<lambda>shell. for_generator (\<lambda>(key, pc). on_charges_elem (f shell key pc)) (gen shell))
           shells self
       = on_charges_elem
           (for_each (call f)
              (concat (map (\<lambda>shell. map (\<lambda>(key, pc). (shell, key, pc)) (fst (gen shell))) shells)))
           self"
proof (induction shells arbitrary: self)
  case Nil
  show ?case by (simp add: for_each_Nil_fun on_charges_elem_Inr)
next
  case (Cons shell shells)
  have inner: "for_generator (\<lambda>(key, pc). on_charges_elem (f shell key pc)) (gen shell) st
      = on_charges_elem (for_each (call f) (map (\<lambda>(key, pc). (shell, key, pc)) (fst (gen shell)))) st" for st
  proof -
    have "for_each (\<lambda>(key, pc). on_charges_elem (f shell key pc)) (fst (gen shell)) st
        = on_charges_elem (for_each (\<lambda>x. call f (case x of (key, pc) \<Rightarrow> (shell, key, pc))) (fst (gen shell))) st"
      using on_charges_elem_for_each [of "\<lambda>x. call f (case x of (key, pc) \<Rightarrow> (shell, key, pc))" "fst (gen shell)"]
      by (simp add: call_def case_prod_unfold)
    then show ?thesis
      using assms [of shell]
      by (simp add: for_generator_def for_each_map split: sum.splits)
  qed
  show ?case
    by (simp add: inner Cons.IH for_each_append_fun on_charges_elem_bind cong: sum.case_cong)
qed

lemma convert_to_elements_keeps:
  "convert_to_elements env vs g = Inr g' \<Longrightarrow>
   nodes g' = nodes g \<and> (\<forall>v. partial_charge (node g' v) = partial_charge (node g v))"
  by (induction vs arbitrary: g) (auto split: option.splits)

lemma convert_to_elements_charged:
  "convert_to_elements env vs g = Inr g' \<Longrightarrow> fully_charged g \<Longrightarrow> fully_charged g'"
  using convert_to_elements_keeps [of env vs g g'] by (simp add: fully_charged_def)

lemma iter_from_yields:
  "iter_atomic_fragments_from env g shell vs =
     (map (spec_fragment env g shell) (takeWhile (\<lambda>v. partial_charge (node g v) \<noteq> None) vs),
      map_option MissingPartialCharge (find (\<lambda>v. partial_charge (node g v) = None) vs))"
  by (induction vs) (auto simp: Let_def spec_fragment_def charge_of_def split: option.splits)

lemma iter_atomic_fragments_yields:
  "iter_atomic_fragments env g shell =
     (map (spec_fragment env g shell) (charged_prefix g),
      map_option MissingPartialCharge (first_uncharged g))"
  by (simp add: iter_atomic_fragments_def iter_from_yields charged_prefix_def first_uncharged_def)

lemma charged_prefix_charged: "fully_charged g \<Longrightarrow> charged_prefix g = nodes g"
  by (simp add: charged_prefix_def fully_charged_def)

lemma observations_contribution:
  "fully_charged g \<Longrightarrow> observations env mx g = spec_contribution env mx g"
  by (simp add: observations_def spec_contribution_def iter_atomic_fragments_yields
      charged_prefix_charged comp_def)

lemma convert_to_elements_typed:
  assumes "distinct vs" "\<forall>v \<in> set vs. IACM_MAP env (atom_type (node g v)) \<noteq> None"
  shows "convert_to_elements env vs g =
     Inr (g\<lparr>node := (\<lambda>v. if v \<in> set vs
                     then (node g v)\<lparr>atom_type := element_of env (atom_type (node g v))\<rparr>
                     else node g v)\<rparr>)"
  using assms
proof (induction vs arbitrary: g)
  case Nil
  show ?case by simp
next
  case (Cons v vs)
  from Cons.prems obtain t where t: "IACM_MAP env (atom_type (node g v)) = Some t" by auto
  define g1 where "g1 = g\<lparr>node := (node g)(v := (node g v)\<lparr>atom_type := t\<rparr>)\<rparr>"
  have d: "distinct vs" "v \<notin> set vs" using Cons.prems(1) by simp_all
  have m: "\<forall>u \<in> set vs. IACM_MAP env (atom_type (node g1 u)) \<noteq> None"
    using Cons.prems(2) d(2) by (auto simp: g1_def)
  have "convert_to_elements env (v # vs) g = convert_to_elements env vs g1"
    by (simp add: t g1_def)
  also have "\<dots> = Inr (g1\<lparr>node := (\<lambda>u. if u \<in> set vs
                     then (node g1 u)\<lparr>atom_type := element_of env (atom_type (node g1 u))\<rparr>
                     else node g1 u)\<rparr>)"
    by (rule Cons.IH [OF d(1) m])
  also have "(g1\<lparr>node := (\<lambda>u. if u \<in> set vs
                     then (node g1 u)\<lparr>atom_type := element_of env (atom_type (node g1 u))\<rparr>
                     else node g1 u)\<rparr>)
      = g\<lparr>node := (\<lambda>u. if u \<in> set (v # vs)
                     then (node g u)\<lparr>atom_type := element_of env (atom_type (node g u))\<rparr>
                     else node g u)\<rparr>"
    using d(2) by (auto simp: g1_def element_of_def t fun_eq_iff)
  finally show ?case .
qed

lemma convert_to_elements_element_typed:
  assumes "distinct (nodes g)" "\<forall>v \<in> set (nodes g). IACM_MAP env (atom_type (node g v)) \<noteq> None"
  shows "convert_to_elements env (nodes g) g = Inr (spec_element_typed env g)"
  using convert_to_elements_typed [OF assms] by (simp add: spec_element_typed_def)

lemma iterate_iacm_charged:
  assumes "convert_from_file env molid = Some g" "fully_charged g"
  shows "iterate_iacm env f molid self
       = on_charges_iacm (for_each (call f) (observations env (max_shell self) g)) self"
  using assms shell_loop_iacm [of "iter_atomic_fragments env g" f "[1..max_shell self]" self]
  by (simp add: iterate_iacm_def observations_def iter_atomic_fragments_charged)

lemma iterate_elem_charged:
  assumes "convert_from_file env molid = Some g" "convert_to_elements env (nodes g) g = Inr g'"
    "fully_charged g"
  shows "iterate_elem env f molid self
       = on_charges_elem (for_each (call f) (observations env (max_shell self) g')) self"
  using assms shell_loop_elem [of "iter_atomic_fragments env g'" f "[1..max_shell self]" self]
    convert_to_elements_charged [OF assms(2,3)]
  by (simp add: iterate_elem_def observations_def iter_atomic_fragments_charged)

section \<open>Buckets as multisets of observations\<close>

lemma charges_at_empty [simp]: "charges_at {#} shell key = {#}"
  by (simp add: charges_at_def)

lemma charges_at_add_mset:
  "charges_at (add_mset ob obs) shell key =
     (if fst ob = shell \<and> fst (snd ob) = key then add_mset (snd (snd ob)) (charges_at obs shell key)
      else charges_at obs shell key)"
  by (simp add: charges_at_def)

lemma charges_at_union: "charges_at (A + B) shell key = charges_at A shell key + charges_at B shell key"
  by (simp add: charges_at_def)

lemma bucket_of_member:
  assumes "pc \<in> set (bucket_of repo shell key)"
  shows "\<exists>sd. items repo shell = Some sd \<and> items sd key = Some (bucket_of repo shell key)"
proof (cases "items repo shell")
  case None
  then show ?thesis using assms by (simp add: bucket_of_def)
next
  case (Some sd)
  show ?thesis
  proof (cases "items sd key")
    case None
    then show ?thesis using assms Some by (simp add: bucket_of_def)
  next
    case (Some b)
    then show ?thesis using \<open>items repo shell = Some sd\<close> by (simp add: bucket_of_def)
  qed
qed

lemma subtract_s_step:
  assumes ok: "buckets_ok repo" and mem: "pc \<in> set (bucket_of repo shell key)"
  shows "\<exists>repo'. subtract_s shell key pc repo = Inr repo'
     \<and> buckets_ok repo' \<and> (shells_ok repo \<longrightarrow> shells_ok repo')
     \<and> (\<forall>shell' key'. bucket_of repo' shell' key' =
           (if shell' = shell \<and> key' = key then remove1 pc (bucket_of repo shell key)
            else bucket_of repo shell' key'))"
proof -
  define b where "b = bucket_of repo shell key"
  from bucket_of_member [OF mem] obtain sd where sd: "items repo shell = Some sd" and bk: "items sd key = Some b"
    unfolding b_def by blast
  have sorted_b: "sorted b" using ok sd bk by (auto simp: buckets_ok_def)
  have mem_b: "pc \<in> set b" using mem by (simp add: b_def)
  define sd' where "sd' = (if remove1 pc b = [] then py_delitem sd key else py_setitem sd key (remove1 pc b))"
  define repo' where "repo' = (if py_len_is_0 sd' then py_delitem repo shell else py_setitem repo shell sd')"
  have res: "subtract_s shell key pc repo = Inr repo'"
    using subtract_s_present [OF sd bk sorted_b mem_b] by (simp add: repo'_def sd'_def Let_def)
  have sd'_items: "items sd' key' = (if key' = key then (if remove1 pc b = [] then None else Some (remove1 pc b))
                                     else items sd key')" for key'
    by (simp add: sd'_def py_delitem_def py_setitem_def)
  have repo'_items: "items repo' shell' = (if shell' = shell then (if py_len_is_0 sd' then None else Some sd')
                                     else items repo shell')" for shell'
    by (simp add: repo'_def py_delitem_def py_setitem_def)
  have empty_sd': "py_len_is_0 sd' \<Longrightarrow> items sd' key' = None" for key'
    by (auto simp: py_len_is_0_def dom_def)
  have bkt: "bucket_of repo' shell' key' =
           (if shell' = shell \<and> key' = key then remove1 pc (bucket_of repo shell key)
            else bucket_of repo shell' key')" for shell' key'
  proof (cases "shell' = shell")
    case False
    then show ?thesis by (simp add: bucket_of_def repo'_items)
  next
    case True
    show ?thesis
    proof (cases "py_len_is_0 sd'")
      case e: True
      have "items sd' key' = None" using e by (rule empty_sd')
      then show ?thesis
        using True e sd bk
        by (auto simp: bucket_of_def repo'_items sd'_items b_def [symmetric] split: if_splits option.splits)
    next
      case ne: False
      show ?thesis
        using True ne sd bk
        by (auto simp: bucket_of_def repo'_items sd'_items b_def [symmetric] split: option.splits)
    qed
  qed
  have ok': "buckets_ok repo'"
    unfolding buckets_ok_def
  proof (intro allI impI)
    fix shell' sdx key' bx
    assume a1: "items repo' shell' = Some sdx" and a2: "items sdx key' = Some bx"
    show "bx \<noteq> [] \<and> sorted bx"
    proof (cases "shell' = shell")
      case False
      then show ?thesis using a1 a2 ok by (auto simp: repo'_items buckets_ok_def)
    next
      case True
      then have sdx: "sdx = sd'" using a1 by (simp add: repo'_items split: if_splits)
      show ?thesis
      proof (cases "key' = key")
        case True
        then have "bx = remove1 pc b" "remove1 pc b \<noteq> []"
          using a2 sdx by (auto simp: sd'_items split: if_splits)
        then show ?thesis using sorted_b by (simp add: sorted_remove1)
      next
        case False
        then have "items sd key' = Some bx" using a2 sdx by (simp add: sd'_items)
        then show ?thesis using ok sd by (auto simp: buckets_ok_def)
      qed
    qed
  qed
  have sh': "shells_ok repo \<longrightarrow> shells_ok repo'"
    by (auto simp: shells_ok_def repo'_items split: if_splits)
  show ?thesis using res ok' sh' bkt by blast
qed

lemma add_a_bucket_mset:
  assumes "buckets_ok repo"
  shows "mset (bucket_of (add_a shell key pc repo) shell' key') =
     (if shell' = shell \<and> key' = key then add_mset pc (mset (bucket_of repo shell key))
      else mset (bucket_of repo shell' key'))"
  using buckets_ok_sorted [OF assms, of shell key]
  by (simp add: add_a_bucket_of insort_left_sorted)


lemma add_calls:
  assumes "buckets_ok repo"
  shows "\<exists>repo'. for_each (call add_callable) obs repo = Inr repo'
     \<and> buckets_ok repo' \<and> (shells_ok repo \<longrightarrow> shells_ok repo')
     \<and> (\<forall>shell key. mset (bucket_of repo' shell key) =
           mset (bucket_of repo shell key) + charges_at (mset obs) shell key)"
  using assms
proof (induction obs arbitrary: repo)
  case Nil
  then show ?case by simp
next
  case (Cons ob obs)
  obtain shell key pc where ob: "ob = (shell, key, pc)" by (cases ob) auto
  define repo1 where "repo1 = add_a shell key pc repo"
  have ok1: "buckets_ok repo1" using Cons.prems by (simp add: repo1_def add_a_buckets_ok)
  have sh1: "shells_ok repo \<longrightarrow> shells_ok repo1" by (simp add: repo1_def add_a_shells_ok)
  from Cons.IH [OF ok1] obtain repo' where r:
    "for_each (call add_callable) obs repo1 = Inr repo'" "buckets_ok repo'"
    "shells_ok repo1 \<longrightarrow> shells_ok repo'"
    "\<forall>shell key. mset (bucket_of repo' shell key) =
           mset (bucket_of repo1 shell key) + charges_at (mset obs) shell key"
    by blast
  have "for_each (call add_callable) (ob # obs) repo = Inr repo'"
    using r(1) by (simp add: ob call_def add_callable_def repo1_def)
  moreover have "\<forall>shell' key'. mset (bucket_of repo' shell' key') =
           mset (bucket_of repo shell' key') + charges_at (mset (ob # obs)) shell' key'"
    using r(4) add_a_bucket_mset [OF Cons.prems, of shell key pc]
    by (simp add: repo1_def ob charges_at_add_mset)
  ultimately show ?case using r(2,3) sh1 by blast
qed

lemma subtract_calls:
  assumes "buckets_ok repo"
    and "\<forall>shell key. charges_at (mset obs) shell key \<subseteq># mset (bucket_of repo shell key)"
  shows "\<exists>repo'. for_each (call subtract_s) obs repo = Inr repo'
     \<and> buckets_ok repo' \<and> (shells_ok repo \<longrightarrow> shells_ok repo')
     \<and> (\<forall>shell key. mset (bucket_of repo' shell key) =
           mset (bucket_of repo shell key) - charges_at (mset obs) shell key)"
  using assms
proof (induction obs arbitrary: repo)
  case Nil
  then show ?case by simp
next
  case (Cons ob obs)
  obtain shell key pc where ob: "ob = (shell, key, pc)" by (cases ob) auto
  have sub: "charges_at (mset (ob # obs)) shell' key' \<subseteq># mset (bucket_of repo shell' key')" for shell' key'
    using Cons.prems(2) by blast
  have "pc \<in># charges_at (mset (ob # obs)) shell key"
    by (simp add: ob charges_at_add_mset)
  then have "pc \<in># mset (bucket_of repo shell key)"
    by (rule mset_subset_eqD [OF sub [of shell key]])
  then have mem: "pc \<in> set (bucket_of repo shell key)" by simp
  from subtract_s_step [OF Cons.prems(1) mem] obtain repo1 where s1:
    "subtract_s shell key pc repo = Inr repo1" "buckets_ok repo1"
    "shells_ok repo \<longrightarrow> shells_ok repo1"
    "\<forall>shell' key'. bucket_of repo1 shell' key' =
           (if shell' = shell \<and> key' = key then remove1 pc (bucket_of repo shell key)
            else bucket_of repo shell' key')"
    by blast
  have b1: "mset (bucket_of repo1 shell' key') =
      (if shell' = shell \<and> key' = key then mset (bucket_of repo shell key) - {#pc#}
       else mset (bucket_of repo shell' key'))" for shell' key'
    using s1(4) by simp
  have sub1: "\<forall>shell' key'. charges_at (mset obs) shell' key' \<subseteq># mset (bucket_of repo1 shell' key')"
  proof (intro allI)
    fix shell' key'
    show "charges_at (mset obs) shell' key' \<subseteq># mset (bucket_of repo1 shell' key')"
    proof (cases "shell' = shell \<and> key' = key")
      case True
      have "add_mset pc (charges_at (mset obs) shell key) \<subseteq># mset (bucket_of repo shell key)"
        using sub [of shell key] by (simp add: ob charges_at_add_mset)
      then have "charges_at (mset obs) shell key \<subseteq># mset (bucket_of repo shell key) - {#pc#}"
        by (simp add: insert_subset_eq_iff)
      then show ?thesis using True by (simp add: b1)
    next
      case False
      then show ?thesis using sub [of shell' key'] by (auto simp: ob charges_at_add_mset b1)
    qed
  qed
  from Cons.IH [OF s1(2) sub1] obtain repo' where r:
    "for_each (call subtract_s) obs repo1 = Inr repo'" "buckets_ok repo'"
    "shells_ok repo1 \<longrightarrow> shells_ok repo'"
    "\<forall>shell key. mset (bucket_of repo' shell key) =
           mset (bucket_of repo1 shell key) - charges_at (mset obs) shell key"
    by blast
  have "for_each (call subtract_s) (ob # obs) repo = Inr repo'"
    using r(1) s1(1) by (simp add: ob call_def)
  moreover have "\<forall>shell' key'. mset (bucket_of repo' shell' key') =
           mset (bucket_of repo shell' key') - charges_at (mset (ob # obs)) shell' key'"
    using r(4) by (simp add: b1 ob charges_at_add_mset)
  ultimately show ?case using r(2,3) s1(3) by blast
qed

section \<open>\<^verbatim>\<open>add\<close> and \<^verbatim>\<open>subtract\<close> on a processable molecule\<close>

lemma iterate_charged:
  assumes "indexed self" "convert_from_file env molid = Some g" "fully_charged g"
    "convert_to_elements env (nodes g) g = Inr g'"
  shows "iterate env self molid f1 f2 =
     (case on_charges_iacm (for_each (call f1) (observations env (max_shell self) g)) self of
        Inl err \<Rightarrow> Inl err
      | Inr self' \<Rightarrow> on_charges_elem (for_each (call f2) (observations env (max_shell self') g')) self')"
proof -
  obtain i1 i2 where ix: "iso_iacm self = Some i1" "iso_elem self = Some i2"
    using assms(1) by (auto simp: indexed_def)
  have e: "(case iterate_elem env f2 molid st of Inl err \<Rightarrow> Inl err | Inr st' \<Rightarrow> Inr st')
      = on_charges_elem (for_each (call f2) (observations env (max_shell st) g')) st" for st
    using iterate_elem_charged [OF assms(2,4,3), of f2 st] by (simp split: sum.splits)
  show ?thesis
    using ix iterate_iacm_charged [OF assms(2,3), of f1 self]
    by (auto simp add: iterate_def Let_def e cong: sum.case_cong split: sum.splits)
qed

lemma on_charges_iacm_Inr_iff:
  "on_charges_iacm F self = Inr self' \<longleftrightarrow> (\<exists>c. F (charges_iacm self) = Inr c \<and> self' = self\<lparr>charges_iacm := c\<rparr>)"
  by (auto simp: on_charges_iacm_def split: sum.splits prod.splits)

lemma on_charges_elem_Inr_iff:
  "on_charges_elem F self = Inr self' \<longleftrightarrow> (\<exists>c. F (charges_elem self) = Inr c \<and> self' = self\<lparr>charges_elem := c\<rparr>)"
  by (auto simp: on_charges_elem_def split: sum.splits prod.splits)

lemma iterate_charged_Inr:
  assumes "indexed self" "convert_from_file env molid = Some g" "fully_charged g"
    "convert_to_elements env (nodes g) g = Inr g'"
    and "for_each (call f1) (observations env (max_shell self) g) (charges_iacm self) = Inr c1"
    and "for_each (call f2) (observations env (max_shell self) g') (charges_elem self) = Inr c2"
  shows "iterate env self molid f1 f2 = Inr (self\<lparr>charges_iacm := c1, charges_elem := c2\<rparr>)"
  using assms(5,6)
  by (simp add: iterate_charged [OF assms(1-4)] on_charges_iacm_def on_charges_elem_def)

lemma processable_graphs:
  assumes "processable env molid"
  obtains g g' where "convert_from_file env molid = Some g" "fully_charged g"
    "convert_to_elements env (nodes g) g = Inr g'"
    "observations_iacm env mx molid = observations env mx g"
    "observations_elem env mx molid = observations env mx g'"
proof -
  from assms obtain g where g: "convert_from_file env molid = Some g" "distinct (nodes g)"
    "fully_charged g" "\<forall>v \<in> set (nodes g). IACM_MAP env (atom_type (node g v)) \<noteq> None"
    by (auto simp: processable_def split: option.splits)
  have c: "convert_to_elements env (nodes g) g = Inr (spec_element_typed env g)"
    by (rule convert_to_elements_element_typed [OF g(2,4)])
  have fc: "fully_charged (spec_element_typed env g)"
    by (rule convert_to_elements_charged [OF c g(3)])
  show thesis
    by (rule that [of g "spec_element_typed env g"])
       (simp_all add: g c fc observations_iacm_def observations_elem_def observations_contribution)
qed

lemma add_processable:
  assumes ix: "indexed self" and pr: "processable env molid"
    and ok: "buckets_ok (charges_iacm self)" "buckets_ok (charges_elem self)"
  shows "\<exists>c1 c2. add env self molid = Inr (self\<lparr>charges_iacm := c1, charges_elem := c2\<rparr>)
     \<and> buckets_ok c1 \<and> buckets_ok c2
     \<and> (shells_ok (charges_iacm self) \<longrightarrow> shells_ok c1)
     \<and> (shells_ok (charges_elem self) \<longrightarrow> shells_ok c2)
     \<and> (\<forall>shell key. mset (bucket_of c1 shell key) =
           mset (bucket_of (charges_iacm self) shell key)
           + charges_at (mset (observations_iacm env (max_shell self) molid)) shell key)
     \<and> (\<forall>shell key. mset (bucket_of c2 shell key) =
           mset (bucket_of (charges_elem self) shell key)
           + charges_at (mset (observations_elem env (max_shell self) molid)) shell key)"
proof -
  from pr obtain g g' where g: "convert_from_file env molid = Some g" "fully_charged g"
    "convert_to_elements env (nodes g) g = Inr g'"
    "observations_iacm env (max_shell self) molid = observations env (max_shell self) g"
    "observations_elem env (max_shell self) molid = observations env (max_shell self) g'"
    by (rule processable_graphs)
  from add_calls [OF ok(1), of "observations env (max_shell self) g"] obtain c1 where c1:
    "for_each (call add_callable) (observations env (max_shell self) g) (charges_iacm self) = Inr c1"
    "buckets_ok c1" "shells_ok (charges_iacm self) \<longrightarrow> shells_ok c1"
    "\<forall>shell key. mset (bucket_of c1 shell key) =
           mset (bucket_of (charges_iacm self) shell key)
           + charges_at (mset (observations env (max_shell self) g)) shell key"
    by blast
  from add_calls [OF ok(2), of "observations env (max_shell self) g'"] obtain c2 where c2:
    "for_each (call add_callable) (observations env (max_shell self) g') (charges_elem self) = Inr c2"
    "buckets_ok c2" "shells_ok (charges_elem self) \<longrightarrow> shells_ok c2"
    "\<forall>shell key. mset (bucket_of c2 shell key) =
           mset (bucket_of (charges_elem self) shell key)
           + charges_at (mset (observations env (max_shell self) g')) shell key"
    by blast
  have "add env self molid = Inr (self\<lparr>charges_iacm := c1, charges_elem := c2\<rparr>)"
    unfolding add_def by (rule iterate_charged_Inr [OF ix g(1,2,3) c1(1) c2(1)])
  then show ?thesis using c1(2,3,4) c2(2,3,4) g(4,5) by auto
qed

lemma subtract_processable:
  assumes ix: "indexed self" and pr: "processable env molid"
    and ok: "buckets_ok (charges_iacm self)" "buckets_ok (charges_elem self)"
    and sub1: "\<forall>shell key. charges_at (mset (observations_iacm env (max_shell self) molid)) shell key
                 \<subseteq># mset (bucket_of (charges_iacm self) shell key)"
    and sub2: "\<forall>shell key. charges_at (mset (observations_elem env (max_shell self) molid)) shell key
                 \<subseteq># mset (bucket_of (charges_elem self) shell key)"
  shows "\<exists>c1 c2. subtract env self molid = Inr (self\<lparr>charges_iacm := c1, charges_elem := c2\<rparr>)
     \<and> buckets_ok c1 \<and> buckets_ok c2
     \<and> (shells_ok (charges_iacm self) \<longrightarrow> shells_ok c1)
     \<and> (shells_ok (charges_elem self) \<longrightarrow> shells_ok c2)
     \<and> (\<forall>shell key. mset (bucket_of c1 shell key) =
           mset (bucket_of (charges_iacm self) shell key)
           - charges_at (mset (observations_iacm env (max_shell self) molid)) shell key)
     \<and> (\<forall>shell key. mset (bucket_of c2 shell key) =
           mset (bucket_of (charges_elem self) shell key)
           - charges_at (mset (observations_elem env (max_shell self) molid)) shell key)"
proof -
  from pr obtain g g' where g: "convert_from_file env molid = Some g" "fully_charged g"
    "convert_to_elements env (nodes g) g = Inr g'"
    "observations_iacm env (max_shell self) molid = observations env (max_shell self) g"
    "observations_elem env (max_shell self) molid = observations env (max_shell self) g'"
    by (rule processable_graphs)
  have s1: "\<forall>shell key. charges_at (mset (observations env (max_shell self) g)) shell key
                 \<subseteq># mset (bucket_of (charges_iacm self) shell key)"
    using sub1 by (simp add: g(4))
  have s2: "\<forall>shell key. charges_at (mset (observations env (max_shell self) g')) shell key
                 \<subseteq># mset (bucket_of (charges_elem self) shell key)"
    using sub2 by (simp add: g(5))
  from subtract_calls [OF ok(1) s1] obtain c1 where c1:
    "for_each (call subtract_s) (observations env (max_shell self) g) (charges_iacm self) = Inr c1"
    "buckets_ok c1" "shells_ok (charges_iacm self) \<longrightarrow> shells_ok c1"
    "\<forall>shell key. mset (bucket_of c1 shell key) =
           mset (bucket_of (charges_iacm self) shell key)
           - charges_at (mset (observations env (max_shell self) g)) shell key"
    by blast
  from subtract_calls [OF ok(2) s2] obtain c2 where c2:
    "for_each (call subtract_s) (observations env (max_shell self) g') (charges_elem self) = Inr c2"
    "buckets_ok c2" "shells_ok (charges_elem self) \<longrightarrow> shells_ok c2"
    "\<forall>shell key. mset (bucket_of c2 shell key) =
           mset (bucket_of (charges_elem self) shell key)
           - charges_at (mset (observations env (max_shell self) g')) shell key"
    by blast
  have "subtract env self molid = Inr (self\<lparr>charges_iacm := c1, charges_elem := c2\<rparr>)"
    unfolding subtract_def by (rule iterate_charged_Inr [OF ix g(1,2,3) c1(1) c2(1)])
  then show ?thesis using c1(2,3,4) c2(2,3,4) g(4,5) by auto
qed

section \<open>Subtracting a molecule right after adding it\<close>

lemma sorted_mset_unique:
  fixes xs :: "'a::linorder list"
  assumes "sorted xs" "sorted ys" "mset xs = mset ys"
  shows "xs = ys"
proof -
  have "sort xs = ys" using assms(2,3) by (simp add: properties_for_sort)
  moreover have "sort xs = xs" using assms(1) by (simp add: sort_key_id_if_sorted)
  ultimately show ?thesis by simp
qed

lemma bucket_of_Some:
  "items r shell = Some sd \<Longrightarrow>
   bucket_of r shell key = (case items sd key of None \<Rightarrow> [] | Some b \<Rightarrow> b)"
  by (simp add: bucket_of_def)

lemma bucket_of_nonempty:
  "bucket_of r shell key \<noteq> [] \<Longrightarrow> \<exists>sd. items r shell = Some sd"
  by (cases "items r shell") (simp_all add: bucket_of_def)

lemma shell_entry_transfer:
  assumes ok1: "buckets_ok r1" "shells_ok r1" and ok2: "buckets_ok r2"
    and eq: "\<forall>shell key. bucket_of r1 shell key = bucket_of r2 shell key"
    and sd1: "items r1 shell = Some sd1"
  shows "\<exists>sd2. items r2 shell = Some sd2 \<and> items sd2 = items sd1"
proof -
  have "\<not> py_len_is_0 sd1" using ok1(2) sd1 by (simp add: shells_ok_def)
  then have "\<exists>k. k \<in> dom (items sd1)" unfolding py_len_is_0_def by blast
  then obtain k b where kb: "items sd1 k = Some b" by (auto simp: dom_def)
  then have "b \<noteq> []" using ok1(1) sd1 by (auto simp: buckets_ok_def)
  moreover have "bucket_of r1 shell k = b" using kb by (simp add: bucket_of_Some [OF sd1])
  moreover have "bucket_of r1 shell k = bucket_of r2 shell k" using eq by blast
  ultimately have "bucket_of r2 shell k \<noteq> []" by simp
  then obtain sd2 where sd2: "items r2 shell = Some sd2"
    using bucket_of_nonempty by blast
  have "items sd2 key = items sd1 key" for key
  proof -
    have e: "bucket_of r1 shell key = bucket_of r2 shell key" using eq by blast
    show ?thesis
    proof (cases "items sd1 key")
      case (Some b')
      then have "b' \<noteq> []" using ok1(1) sd1 by (auto simp: buckets_ok_def)
      moreover have "bucket_of r2 shell key = b'"
        using e Some by (simp add: bucket_of_Some [OF sd1])
      ultimately show ?thesis
        using Some by (cases "items sd2 key") (simp_all add: bucket_of_Some [OF sd2])
    next
      case None
      then have r2: "bucket_of r2 shell key = []"
        using e by (simp add: bucket_of_Some [OF sd1])
      show ?thesis
      proof (cases "items sd2 key")
        case n: None
        then show ?thesis using None by simp
      next
        case (Some b2)
        then have "b2 \<noteq> []" using ok2 sd2 by (auto simp: buckets_ok_def)
        then show ?thesis using r2 Some by (simp add: bucket_of_Some [OF sd2])
      qed
    qed
  qed
  then show ?thesis using sd2 by auto
qed

lemma contents_eqI:
  assumes "buckets_ok r1" "shells_ok r1" "buckets_ok r2" "shells_ok r2"
    and eq: "\<forall>shell key. bucket_of r1 shell key = bucket_of r2 shell key"
  shows "contents r1 = contents r2"
proof (rule ext)
  fix shell
  have eq': "\<forall>shell key. bucket_of r2 shell key = bucket_of r1 shell key" using eq by simp
  show "contents r1 shell = contents r2 shell"
  proof (cases "items r1 shell")
    case (Some sd1)
    from shell_entry_transfer [OF assms(1,2,3) eq Some] show ?thesis
      using Some by (auto simp: contents_def)
  next
    case None
    show ?thesis
    proof (cases "items r2 shell")
      case n2: None
      then show ?thesis using None by (simp add: contents_def)
    next
      case (Some sd2)
      from shell_entry_transfer [OF assms(3,4,1) eq' Some] show ?thesis
        using None by auto
    qed
  qed
qed

lemma buckets_eq_of_mset:
  assumes "buckets_ok r1" "buckets_ok r2"
    and "\<forall>shell key. mset (bucket_of r1 shell key) = mset (bucket_of r2 shell key)"
  shows "\<forall>shell key. bucket_of r1 shell key = bucket_of r2 shell key"
  using assms buckets_ok_sorted sorted_mset_unique by blast

lemma create_from_empty_corpus:
  "create_from example_env [] 1 1 = Inr empty_corpus_repository"
  by (simp add: build_defs example_defs empty_corpus_repository_def)

lemma add_empty_corpus_repository:
  "add example_env empty_corpus_repository 1 = Inr after_add"
  by (simp add: mutation_defs example_defs empty_corpus_repository_def after_add_def
      insort_left_Nil upto.simps py_defaultdict_def)

lemma list_pop_single: "list_pop [x] (bisect_left [x] x) = Inr []"
  using list_pop_bisect_left [of "[x]" x] by simp

lemma subtract_after_add_example:
  "subtract example_env after_add 1 = Inr after_subtract"
  by (simp add: mutation_defs example_defs after_add_def after_subtract_def
      subtract_s_def py_getitem_def py_delitem_def py_len_is_0_def list_pop_single upto.simps)

lemma new_repository_init: "Repository_init example_env 1 1 = Inr new_repository"
  by (simp add: Repository_init_def new_repository_def example_env_def)

lemma add_new_repository:
  "add env new_repository molid = Inl (AttributeError, new_repository)"
  by (simp add: add_def iterate_def new_repository_def)

lemma subtract_new_repository:
  "subtract env new_repository molid = Inl (AttributeError, new_repository)"
  by (simp add: subtract_def iterate_def new_repository_def)

lemma processable_example_1: "processable example_env 1"
  by (simp add: processable_def fully_charged_def example_defs)

lemma processable_example_2: "processable example_env 2"
  by (simp add: processable_def fully_charged_def example_defs)

text \<open>
  Once the isomorphism indices are assigned, as \<^verbatim>\<open>create_from\<close> and \<^verbatim>\<open>read\<close> do,
  the two calls undo each other.  For a repository that has its indices and
  whose stored buckets are non-empty and sorted, and for a molecule that can be
  processed, \<^verbatim>\<open>add\<close> followed by \<^verbatim>\<open>subtract\<close> of the same molecule returns
  normally and restores the shell bounds, both indices, and both stores bucket
  for bucket.  When, moreover, every stored shell entry holds a bucket, the two
  stores have the same items as before, shell entry for shell entry.  Whether
  the molecule already contributes does not matter.
\<close>

lemma subtract_after_add_indexed:
  assumes "indexed R" "buckets_ok (charges_iacm R)" "buckets_ok (charges_elem R)"
    and "processable env molid"
  shows "\<exists>R1 R2. add env R molid = Inr R1 \<and> subtract env R1 molid = Inr R2
     \<and> min_shell R2 = min_shell R \<and> max_shell R2 = max_shell R
     \<and> iso_iacm R2 = iso_iacm R \<and> iso_elem R2 = iso_elem R
     \<and> (\<forall>shell key. bucket_of (charges_iacm R2) shell key = bucket_of (charges_iacm R) shell key)
     \<and> (\<forall>shell key. bucket_of (charges_elem R2) shell key = bucket_of (charges_elem R) shell key)
     \<and> (well_kept R \<longrightarrow> repository_eq R2 R)"
proof -
  note ok = assms(2,3)
  from add_processable [OF assms(1,4) ok] obtain c1 c2 where a:
    "add env R molid = Inr (R\<lparr>charges_iacm := c1, charges_elem := c2\<rparr>)"
    "buckets_ok c1" "buckets_ok c2"
    "shells_ok (charges_iacm R) \<longrightarrow> shells_ok c1"
    "shells_ok (charges_elem R) \<longrightarrow> shells_ok c2"
    "\<forall>shell key. mset (bucket_of c1 shell key) =
           mset (bucket_of (charges_iacm R) shell key)
           + charges_at (mset (observations_iacm env (max_shell R) molid)) shell key"
    "\<forall>shell key. mset (bucket_of c2 shell key) =
           mset (bucket_of (charges_elem R) shell key)
           + charges_at (mset (observations_elem env (max_shell R) molid)) shell key"
    by blast
  define R1 where "R1 = R\<lparr>charges_iacm := c1, charges_elem := c2\<rparr>"
  have R1: "indexed R1" "max_shell R1 = max_shell R" "charges_iacm R1 = c1" "charges_elem R1 = c2"
    using assms(1) by (simp_all add: R1_def indexed_def)
  have s1: "\<forall>shell key. charges_at (mset (observations_iacm env (max_shell R1) molid)) shell key
                 \<subseteq># mset (bucket_of (charges_iacm R1) shell key)"
    using a(6) by (simp add: R1)
  have s2: "\<forall>shell key. charges_at (mset (observations_elem env (max_shell R1) molid)) shell key
                 \<subseteq># mset (bucket_of (charges_elem R1) shell key)"
    using a(7) by (simp add: R1)
  have ok1: "buckets_ok (charges_iacm R1)" "buckets_ok (charges_elem R1)"
    using a(2,3) by (simp_all add: R1)
  from subtract_processable [OF R1(1) assms(4) ok1 s1 s2] obtain d1 d2 where s:
    "subtract env R1 molid = Inr (R1\<lparr>charges_iacm := d1, charges_elem := d2\<rparr>)"
    "buckets_ok d1" "buckets_ok d2"
    "shells_ok c1 \<longrightarrow> shells_ok d1" "shells_ok c2 \<longrightarrow> shells_ok d2"
    "\<forall>shell key. mset (bucket_of d1 shell key) =
           mset (bucket_of (charges_iacm R1) shell key)
           - charges_at (mset (observations_iacm env (max_shell R1) molid)) shell key"
    "\<forall>shell key. mset (bucket_of d2 shell key) =
           mset (bucket_of (charges_elem R1) shell key)
           - charges_at (mset (observations_elem env (max_shell R1) molid)) shell key"
    using R1(3,4) by auto
  define R2 where "R2 = R1\<lparr>charges_iacm := d1, charges_elem := d2\<rparr>"
  have m1: "\<forall>shell key. mset (bucket_of d1 shell key) = mset (bucket_of (charges_iacm R) shell key)"
    using s(6) a(6) by (simp add: R1)
  have m2: "\<forall>shell key. mset (bucket_of d2 shell key) = mset (bucket_of (charges_elem R) shell key)"
    using s(7) a(7) by (simp add: R1)
  have b1: "\<forall>shell key. bucket_of d1 shell key = bucket_of (charges_iacm R) shell key"
    by (rule buckets_eq_of_mset [OF s(2) ok(1) m1])
  have b2: "\<forall>shell key. bucket_of d2 shell key = bucket_of (charges_elem R) shell key"
    by (rule buckets_eq_of_mset [OF s(3) ok(2) m2])
  have eq: "repository_eq R2 R" if wk: "well_kept R"
  proof -
    have sh: "shells_ok (charges_iacm R)" "shells_ok (charges_elem R)"
      using wk by (simp_all add: well_kept_def)
    have sd: "shells_ok d1" "shells_ok d2" using a(4,5) s(4,5) sh by blast+
    have c1: "contents d1 = contents (charges_iacm R)"
      by (rule contents_eqI [OF s(2) sd(1) ok(1) sh(1) b1])
    have c2: "contents d2 = contents (charges_elem R)"
      by (rule contents_eqI [OF s(3) sd(2) ok(2) sh(2) b2])
    show ?thesis by (simp add: repository_eq_def c1 c2 R1_def R2_def)
  qed
  have "add env R molid = Inr R1" using a(1) by (simp add: R1_def)
  moreover have "subtract env R1 molid = Inr R2" using s(1) by (simp add: R2_def)
  moreover have "min_shell R2 = min_shell R \<and> max_shell R2 = max_shell R
     \<and> iso_iacm R2 = iso_iacm R \<and> iso_elem R2 = iso_elem R"
    by (simp add: R1_def R2_def)
  moreover have "\<forall>shell key. bucket_of (charges_iacm R2) shell key = bucket_of (charges_iacm R) shell key"
    using b1 by (simp add: R2_def)
  moreover have "\<forall>shell key. bucket_of (charges_elem R2) shell key = bucket_of (charges_elem R) shell key"
    using b2 by (simp add: R2_def)
  ultimately show ?thesis using eq by blast
qed

text \<open>
  The repository that \<^verbatim>\<open>create_from\<close> builds from an empty directory holds an
  empty entry for shell 1, which \<^verbatim>\<open>add\<close> fills and \<^verbatim>\<open>subtract\<close> deletes with its
  last bucket: all buckets, bounds and indices are restored, the empty shell
  entry is not.
\<close>

lemma subtract_after_add_empty_shell_entry:
  "create_from example_env [] 1 1 = Inr empty_corpus_repository
   \<and> add example_env empty_corpus_repository 1 = Inr after_add
   \<and> subtract example_env after_add 1 = Inr after_subtract
   \<and> bucket_of (charges_iacm after_subtract) = bucket_of (charges_iacm empty_corpus_repository)
   \<and> bucket_of (charges_elem after_subtract) = bucket_of (charges_elem empty_corpus_repository)
   \<and> items (charges_iacm empty_corpus_repository) 1 \<noteq> None
   \<and> items (charges_iacm after_subtract) 1 = None"
proof -
  have "bucket_of (charges_iacm after_subtract) shell key
      = bucket_of (charges_iacm empty_corpus_repository) shell key" for shell key
    by (simp add: bucket_of_def after_subtract_def empty_corpus_repository_def py_defaultdict_def)
  moreover have "bucket_of (charges_elem after_subtract) shell key
      = bucket_of (charges_elem empty_corpus_repository) shell key" for shell key
    by (simp add: bucket_of_def after_subtract_def empty_corpus_repository_def py_defaultdict_def)
  ultimately have "bucket_of (charges_iacm after_subtract) = bucket_of (charges_iacm empty_corpus_repository)"
    "bucket_of (charges_elem after_subtract) = bucket_of (charges_elem empty_corpus_repository)"
    by (auto simp: fun_eq_iff)
  moreover have "items (charges_iacm empty_corpus_repository) 1 \<noteq> None
      \<and> items (charges_iacm after_subtract) 1 = None"
    by (simp add: after_subtract_def empty_corpus_repository_def)
  ultimately show ?thesis
    by (simp add: create_from_empty_corpus add_empty_corpus_repository subtract_after_add_example)
qed

text \<open>
  C2.  The claim asks that \<^verbatim>\<open>subtract\<close> right after \<^verbatim>\<open>add\<close> restores every
  repository.  The repository that the constructor returns has empty stores, so
  molecule 1 does not contribute to it, and molecule 1 can be processed; but
  \<^verbatim>\<open>__init__\<close> never assigns the two isomorphism indices, which \<^verbatim>\<open>create_from\<close>
  and \<^verbatim>\<open>read\<close> do assign.  So \<^verbatim>\<open>add\<close> raises AttributeError at its first index
  lookup, before anything is stored, and the pair of calls ends there instead of
  returning the repository.
\<close>

theorem add_then_subtract_new_repository:
  "Repository_init example_env 1 1 = Inr new_repository
   \<and> items (charges_iacm new_repository) = Map.empty
   \<and> items (charges_elem new_repository) = Map.empty
   \<and> admissible example_env [Add 1, Subtract 1] {#}
   \<and> add example_env new_repository 1 = Inl (AttributeError, new_repository)
   \<and> for_each (mutate example_env) [Add 1, Subtract 1] new_repository
       = Inl (AttributeError, new_repository)"
proof -
  have "items (charges_iacm new_repository) = Map.empty
      \<and> items (charges_elem new_repository) = Map.empty"
    by (simp add: new_repository_def new_charge_dict_def py_defaultdict_def)
  moreover have "admissible example_env [Add 1, Subtract 1] {#}"
    by (simp add: processable_example_1)
  ultimately show ?thesis
    by (simp add: new_repository_init add_new_repository)
qed

section \<open>The buckets after a sequence of \<^verbatim>\<open>add\<close> and \<^verbatim>\<open>subtract\<close> calls\<close>

lemma contributions_iacm_add:
  "contributions_iacm env mx (add_mset m M) =
     mset (observations_iacm env mx m) + contributions_iacm env mx M"
  by (simp add: contributions_iacm_def)

lemma contributions_elem_add:
  "contributions_elem env mx (add_mset m M) =
     mset (observations_elem env mx m) + contributions_elem env mx M"
  by (simp add: contributions_elem_def)

lemma contributions_iacm_member:
  assumes "m \<in># M"
  shows "contributions_iacm env mx M =
     mset (observations_iacm env mx m) + contributions_iacm env mx (M - {#m#})"
  using contributions_iacm_add [of env mx m "M - {#m#}"] assms by simp

lemma contributions_elem_member:
  assumes "m \<in># M"
  shows "contributions_elem env mx M =
     mset (observations_elem env mx m) + contributions_elem env mx (M - {#m#})"
  using contributions_elem_add [of env mx m "M - {#m#}"] assms by simp

lemma add_tracks:
  assumes ix: "indexed r" and tr: "tracks env r M" and pr: "processable env m"
  shows "\<exists>r'. add env r m = Inr r' \<and> tracks env r' (add_mset m M) \<and> indexed r'"
proof -
  have ok: "buckets_ok (charges_iacm r)" "buckets_ok (charges_elem r)"
    and b1: "\<And>shell key. mset (bucket_of (charges_iacm r) shell key) =
             charges_at (contributions_iacm env (max_shell r) M) shell key"
    and b2: "\<And>shell key. mset (bucket_of (charges_elem r) shell key) =
             charges_at (contributions_elem env (max_shell r) M) shell key"
    using tr by (simp_all add: tracks_def)
  from add_processable [OF ix pr ok] obtain c1 c2 where a:
    "add env r m = Inr (r\<lparr>charges_iacm := c1, charges_elem := c2\<rparr>)"
    "buckets_ok c1" "buckets_ok c2"
    "\<forall>shell key. mset (bucket_of c1 shell key) =
           mset (bucket_of (charges_iacm r) shell key)
           + charges_at (mset (observations_iacm env (max_shell r) m)) shell key"
    "\<forall>shell key. mset (bucket_of c2 shell key) =
           mset (bucket_of (charges_elem r) shell key)
           + charges_at (mset (observations_elem env (max_shell r) m)) shell key"
    by blast
  have "tracks env (r\<lparr>charges_iacm := c1, charges_elem := c2\<rparr>) (add_mset m M)"
    using a(2,3,4,5)
    by (simp add: tracks_def b1 b2 contributions_iacm_add contributions_elem_add charges_at_union)
  moreover have "indexed (r\<lparr>charges_iacm := c1, charges_elem := c2\<rparr>)"
    using ix by (simp add: indexed_def)
  ultimately show ?thesis using a(1) by blast
qed

lemma subtract_tracks:
  assumes ix: "indexed r" and tr: "tracks env r M" and pr: "processable env m" and mem: "m \<in># M"
  shows "\<exists>r'. subtract env r m = Inr r' \<and> tracks env r' (M - {#m#}) \<and> indexed r'"
proof -
  have ok: "buckets_ok (charges_iacm r)" "buckets_ok (charges_elem r)"
    and b1: "\<And>shell key. mset (bucket_of (charges_iacm r) shell key) =
             charges_at (contributions_iacm env (max_shell r) M) shell key"
    and b2: "\<And>shell key. mset (bucket_of (charges_elem r) shell key) =
             charges_at (contributions_elem env (max_shell r) M) shell key"
    using tr by (simp_all add: tracks_def)
  have s1: "\<forall>shell key. charges_at (mset (observations_iacm env (max_shell r) m)) shell key
                 \<subseteq># mset (bucket_of (charges_iacm r) shell key)"
    by (simp add: b1 contributions_iacm_member [OF mem] charges_at_union)
  have s2: "\<forall>shell key. charges_at (mset (observations_elem env (max_shell r) m)) shell key
                 \<subseteq># mset (bucket_of (charges_elem r) shell key)"
    by (simp add: b2 contributions_elem_member [OF mem] charges_at_union)
  from subtract_processable [OF ix pr ok s1 s2] obtain c1 c2 where a:
    "subtract env r m = Inr (r\<lparr>charges_iacm := c1, charges_elem := c2\<rparr>)"
    "buckets_ok c1" "buckets_ok c2"
    "\<forall>shell key. mset (bucket_of c1 shell key) =
           mset (bucket_of (charges_iacm r) shell key)
           - charges_at (mset (observations_iacm env (max_shell r) m)) shell key"
    "\<forall>shell key. mset (bucket_of c2 shell key) =
           mset (bucket_of (charges_elem r) shell key)
           - charges_at (mset (observations_elem env (max_shell r) m)) shell key"
    by blast
  have "tracks env (r\<lparr>charges_iacm := c1, charges_elem := c2\<rparr>) (M - {#m#})"
    using a(2,3,4,5)
    by (simp add: tracks_def b1 b2 contributions_iacm_member [OF mem]
        contributions_elem_member [OF mem] charges_at_union)
  moreover have "indexed (r\<lparr>charges_iacm := c1, charges_elem := c2\<rparr>)"
    using ix by (simp add: indexed_def)
  ultimately show ?thesis using a(1) by blast
qed

lemma mutations_track:
  assumes "indexed r" "tracks env r M" "\<forall>m \<in># M. processable env m" "admissible env ms M"
  shows "\<exists>r'. for_each (mutate env) ms r = Inr r' \<and> tracks env r' (contributing ms M) \<and> indexed r'"
  using assms
proof (induction ms arbitrary: r M)
  case Nil
  then show ?case by simp
next
  case (Cons mu ms)
  show ?case
  proof (cases mu)
    case (Add m)
    have pr: "processable env m" and adm: "admissible env ms (add_mset m M)"
      using Cons.prems(4) Add by simp_all
    from add_tracks [OF Cons.prems(1,2) pr] obtain r1 where r1:
      "add env r m = Inr r1" "tracks env r1 (add_mset m M)" "indexed r1" by blast
    have all: "\<forall>m' \<in># add_mset m M. processable env m'" using Cons.prems(3) pr by simp
    from Cons.IH [OF r1(3,2) all adm] obtain r' where
      "for_each (mutate env) ms r1 = Inr r'" "tracks env r' (contributing ms (add_mset m M))" "indexed r'"
      by blast
    then show ?thesis using r1(1) Add by simp
  next
    case (Subtract m)
    have mem: "m \<in># M" and adm: "admissible env ms (M - {#m#})"
      using Cons.prems(4) Subtract by simp_all
    have pr: "processable env m" using Cons.prems(3) mem by blast
    from subtract_tracks [OF Cons.prems(1,2) pr mem] obtain r1 where r1:
      "subtract env r m = Inr r1" "tracks env r1 (M - {#m#})" "indexed r1" by blast
    have all: "\<forall>m' \<in># M - {#m#}. processable env m'"
      using Cons.prems(3) by (meson in_diffD)
    from Cons.IH [OF r1(3,2) all adm] obtain r' where
      "for_each (mutate env) ms r1 = Inr r'" "tracks env r' (contributing ms (M - {#m#}))" "indexed r'"
      by blast
    then show ?thesis using r1(1) Subtract by simp
  qed
qed

lemma no_buckets_bucket_of: "no_buckets repo \<Longrightarrow> bucket_of repo shell key = []"
  by (cases "items repo shell") (auto simp: no_buckets_def bucket_of_def)

lemma no_buckets_ok: "no_buckets repo \<Longrightarrow> buckets_ok repo"
  by (auto simp: no_buckets_def buckets_ok_def)

lemma no_buckets_tracks:
  assumes "no_buckets (charges_iacm r)" "no_buckets (charges_elem r)"
  shows "tracks env r {#}"
  using assms
  by (simp add: tracks_def no_buckets_ok no_buckets_bucket_of contributions_iacm_def
      contributions_elem_def)

text \<open>
  Once the isomorphism indices are assigned, the buckets follow the calls.
  Start from a repository that has its indices and whose stores hold no bucket,
  and make any sequence of \<^verbatim>\<open>add\<close> and \<^verbatim>\<open>subtract\<close> calls in which every added
  molecule can be processed and every \<^verbatim>\<open>subtract\<close> removes a molecule that was
  added before and still contributes.  Then every call returns normally, and
  afterwards, in both stores, every stored bucket is non-empty and sorted and
  holds exactly the multiset of charges that the contributing molecules have at
  its shell and fingerprint.
\<close>

lemma buckets_after_mutations_indexed:
  assumes "indexed r" "no_buckets (charges_iacm r)" "no_buckets (charges_elem r)"
    and "admissible env ms {#}"
  shows "\<exists>r'. for_each (mutate env) ms r = Inr r' \<and> tracks env r' (contributing ms {#})"
proof -
  have "\<forall>m \<in># {#}. processable env m" by simp
  from mutations_track [OF assms(1) no_buckets_tracks [OF assms(2,3)] this assms(4)]
  show ?thesis by blast
qed

text \<open>An instance: the repository built from an empty directory.\<close>

lemma buckets_after_mutations_example:
  "\<exists>r'. for_each (mutate example_env) [Add 1, Add 2, Subtract 1] empty_corpus_repository = Inr r'
          \<and> tracks example_env r' {#2#}"
proof -
  have h1: "indexed empty_corpus_repository"
    by (simp add: indexed_def empty_corpus_repository_def)
  have h2: "no_buckets (charges_iacm empty_corpus_repository)"
    by (simp add: no_buckets_def empty_corpus_repository_def py_defaultdict_def)
  have h3: "no_buckets (charges_elem empty_corpus_repository)"
    by (simp add: no_buckets_def empty_corpus_repository_def py_defaultdict_def)
  have h4: "admissible example_env [Add 1, Add 2, Subtract 1] {#}"
    by (simp add: processable_example_1 processable_example_2)
  from buckets_after_mutations_indexed [OF h1 h2 h3 h4] show ?thesis by simp
qed


section \<open>The isomorphism indices during \<^verbatim>\<open>add\<close> and \<^verbatim>\<open>subtract\<close>\<close>

lemma map_outcome_simps [simp]:
  "map_outcome h (Inl (e, st)) = Inl (e, h st)"
  "map_outcome h (Inr st) = Inr (h st)"
  by (simp_all add: map_outcome_def)

lemma for_each_commute:
  assumes "\<And>x st. body' x (h st) = map_outcome h (body x st)"
  shows "for_each body' xs (h st) = map_outcome h (for_each body xs st)"
proof (induction xs arbitrary: st)
  case Nil
  show ?case by simp
next
  case (Cons x xs)
  show ?case
  proof (cases "body x st")
    case (Inl p)
    then show ?thesis using assms [of x st] by (cases p) simp
  next
    case (Inr st')
    then show ?thesis using assms [of x st] Cons.IH [of st'] by simp
  qed
qed

lemma for_generator_commute:
  assumes "\<And>x st. body' x (h st) = map_outcome h (body x st)"
  shows "for_generator body' gen (h st) = map_outcome h (for_generator body gen st)"
proof -
  have fe: "for_each body' (fst gen) (h st) = map_outcome h (for_each body (fst gen) st)"
    using assms by (rule for_each_commute [where body' = body' and body = body and h = h])
  show ?thesis
  proof (cases "for_each body (fst gen) st")
    case (Inl p)
    then show ?thesis using fe by (cases p) (simp add: for_generator_def)
  next
    case (Inr st')
    then show ?thesis using fe by (cases "snd gen") (simp_all add: for_generator_def)
  qed
qed

lemma on_charges_iacm_with_indices:
  "on_charges_iacm F (with_indices i1 i2 self) = map_outcome (with_indices i1 i2) (on_charges_iacm F self)"
  by (auto simp: on_charges_iacm_def with_indices_def split: sum.splits prod.splits)

lemma on_charges_elem_with_indices:
  "on_charges_elem F (with_indices i1 i2 self) = map_outcome (with_indices i1 i2) (on_charges_elem F self)"
  by (auto simp: on_charges_elem_def with_indices_def split: sum.splits prod.splits)

lemma iter_atomic_fragments_from_env:
  assumes "canonize_neighborhood env' = canonize_neighborhood env"
  shows "iter_atomic_fragments_from env' g shell vs = iter_atomic_fragments_from env g shell vs"
  by (induction vs) (auto simp: assms Let_def split: option.splits)

lemma iter_atomic_fragments_env:
  assumes "canonize_neighborhood env' = canonize_neighborhood env"
  shows "iter_atomic_fragments env' g shell = iter_atomic_fragments env g shell"
  by (simp add: iter_atomic_fragments_def iter_atomic_fragments_from_env [OF assms])

lemma convert_to_elements_env:
  assumes "IACM_MAP env' = IACM_MAP env"
  shows "convert_to_elements env' vs g = convert_to_elements env vs g"
  by (induction vs arbitrary: g) (auto simp: assms split: option.splits)

lemma shell_loop_iacm_with_indices:
  "for_each (\<lambda>shell. for_generator (\<lambda>(key, pc). on_charges_iacm (f shell key pc)) (gen shell))
     shells (with_indices i1 i2 self)
   = map_outcome (with_indices i1 i2)
       (for_each (\<lambda>shell. for_generator (\<lambda>(key, pc). on_charges_iacm (f shell key pc)) (gen shell))
          shells self)"
  by (rule for_each_commute, rule for_generator_commute)
     (simp add: case_prod_unfold on_charges_iacm_with_indices)

lemma shell_loop_elem_with_indices:
  "for_each (\<lambda>shell. for_generator (\<lambda>(key, pc). on_charges_elem (f shell key pc)) (gen shell))
     shells (with_indices i1 i2 self)
   = map_outcome (with_indices i1 i2)
       (for_each (\<lambda>shell. for_generator (\<lambda>(key, pc). on_charges_elem (f shell key pc)) (gen shell))
          shells self)"
  by (rule for_each_commute, rule for_generator_commute)
     (simp add: case_prod_unfold on_charges_elem_with_indices)

lemma max_shell_with_indices [simp]: "max_shell (with_indices i1 i2 self) = max_shell self"
  by (simp add: with_indices_def)

lemma iterate_iacm_with_indices:
  assumes "convert_from_file env' molid = convert_from_file env molid"
    and "canonize_neighborhood env' = canonize_neighborhood env"
  shows "iterate_iacm env' f molid (with_indices i1 i2 self)
       = map_outcome (with_indices i1 i2) (iterate_iacm env f molid self)"
  by (cases "convert_from_file env molid")
     (simp_all add: iterate_iacm_def assms(1) iter_atomic_fragments_env [OF assms(2)]
        shell_loop_iacm_with_indices)

lemma iterate_elem_with_indices:
  assumes "convert_from_file env' molid = convert_from_file env molid"
    and "canonize_neighborhood env' = canonize_neighborhood env"
    and "IACM_MAP env' = IACM_MAP env"
  shows "iterate_elem env' f molid (with_indices i1 i2 self)
       = map_outcome (with_indices i1 i2) (iterate_elem env f molid self)"
proof (cases "convert_from_file env molid")
  case None
  then show ?thesis by (simp add: iterate_elem_def assms(1))
next
  case (Some g0)
  show ?thesis
  proof (cases "convert_to_elements env (nodes g0) g0")
    case (Inl e)
    then show ?thesis
      by (simp add: iterate_elem_def assms(1) Some convert_to_elements_env [OF assms(3)])
  next
    case (Inr g)
    then show ?thesis
      by (simp add: iterate_elem_def assms(1) Some convert_to_elements_env [OF assms(3)]
          iter_atomic_fragments_env [OF assms(2)] shell_loop_elem_with_indices)
  qed
qed

lemma iterate_with_indices:
  assumes ix: "indexed self"
    and env: "convert_from_file env' molid = convert_from_file env molid"
      "canonize_neighborhood env' = canonize_neighborhood env"
      "IACM_MAP env' = IACM_MAP env"
  shows "iterate env' (with_indices i1 i2 self) molid f1 f2
       = map_outcome (with_indices i1 i2) (iterate env self molid f1 f2)"
proof -
  obtain j1 j2 where j: "iso_iacm self = Some j1" "iso_elem self = Some j2"
    using ix by (auto simp: indexed_def)
  have w: "iso_iacm (with_indices i1 i2 self) = Some i1" "iso_elem (with_indices i1 i2 self) = Some i2"
    by (simp_all add: with_indices_def)
  have one: "for_each body [molid] st = body molid st" for body :: "int \<Rightarrow> repository \<Rightarrow> repository outcome" and st
    by (simp split: sum.splits)
  show ?thesis
  proof (cases "iterate_iacm env f1 molid self")
    case (Inl p)
    then show ?thesis
      using iterate_iacm_with_indices [OF env(1,2), of f1 i1 i2 self]
      by (cases p) (simp add: iterate_def Let_def j w one del: for_each.simps)
  next
    case (Inr self')
    then show ?thesis
      using iterate_iacm_with_indices [OF env(1,2), of f1 i1 i2 self]
        iterate_elem_with_indices [OF env, of f2 i1 i2 self']
      by (simp add: iterate_def Let_def j w one del: for_each.simps)
  qed
qed


lemma mset_insort_left: "mset (insort_left b pc) = add_mset pc (mset b)"
proof -
  have "mset (take (bisect_left b pc) b) + mset (drop (bisect_left b pc) b) = mset b"
    by (metis append_take_drop_id mset_append)
  then show ?thesis by (simp add: insort_left_def Let_def)
qed

lemma add_calls_mset:
  "\<exists>repo'. for_each (call add_callable) obs repo = Inr repo'
     \<and> (\<forall>shell key. mset (bucket_of repo' shell key) =
           mset (bucket_of repo shell key) + charges_at (mset obs) shell key)"
proof (induction obs arbitrary: repo)
  case Nil
  show ?case by simp
next
  case (Cons ob obs)
  obtain shell key pc where ob: "ob = (shell, key, pc)" by (cases ob) auto
  from Cons.IH [of "add_a shell key pc repo"] obtain repo' where r:
    "for_each (call add_callable) obs (add_a shell key pc repo) = Inr repo'"
    "\<forall>shell' key'. mset (bucket_of repo' shell' key') =
           mset (bucket_of (add_a shell key pc repo) shell' key') + charges_at (mset obs) shell' key'"
    by blast
  have "for_each (call add_callable) (ob # obs) repo = Inr repo'"
    using r(1) by (simp add: ob call_def add_callable_def)
  moreover have "\<forall>shell' key'. mset (bucket_of repo' shell' key') =
           mset (bucket_of repo shell' key') + charges_at (mset (ob # obs)) shell' key'"
    using r(2) by (simp add: ob charges_at_add_mset add_a_bucket_of mset_insort_left)
  ultimately show ?case by blast
qed

lemma add_processable_mset:
  assumes ix: "indexed self" and pr: "processable env molid"
  shows "\<exists>self'. add env self molid = Inr self'
     \<and> (\<forall>shell key. mset (bucket_of (charges_iacm self') shell key) =
           mset (bucket_of (charges_iacm self) shell key)
           + charges_at (mset (observations_iacm env (max_shell self) molid)) shell key)
     \<and> (\<forall>shell key. mset (bucket_of (charges_elem self') shell key) =
           mset (bucket_of (charges_elem self) shell key)
           + charges_at (mset (observations_elem env (max_shell self) molid)) shell key)"
proof -
  from pr obtain g g' where g: "convert_from_file env molid = Some g" "fully_charged g"
    "convert_to_elements env (nodes g) g = Inr g'"
    "observations_iacm env (max_shell self) molid = observations env (max_shell self) g"
    "observations_elem env (max_shell self) molid = observations env (max_shell self) g'"
    by (rule processable_graphs)
  from add_calls_mset [of "observations env (max_shell self) g" "charges_iacm self"] obtain c1 where c1:
    "for_each (call add_callable) (observations env (max_shell self) g) (charges_iacm self) = Inr c1"
    "\<forall>shell key. mset (bucket_of c1 shell key) =
           mset (bucket_of (charges_iacm self) shell key)
           + charges_at (mset (observations env (max_shell self) g)) shell key"
    by blast
  from add_calls_mset [of "observations env (max_shell self) g'" "charges_elem self"] obtain c2 where c2:
    "for_each (call add_callable) (observations env (max_shell self) g') (charges_elem self) = Inr c2"
    "\<forall>shell key. mset (bucket_of c2 shell key) =
           mset (bucket_of (charges_elem self) shell key)
           + charges_at (mset (observations env (max_shell self) g')) shell key"
    by blast
  have "add env self molid = Inr (self\<lparr>charges_iacm := c1, charges_elem := c2\<rparr>)"
    unfolding add_def by (rule iterate_charged_Inr [OF ix g(1,2,3) c1(1) c2(1)])
  then show ?thesis using c1(2) c2(2) g(4,5) by auto
qed

text \<open>
  Once the isomorphism indices are assigned, they do not matter.  For a
  repository that has its indices, \<^verbatim>\<open>add\<close> and \<^verbatim>\<open>subtract\<close> of a molecule id do
  the same whatever the two indices hold and whatever the files of the other
  molecule ids hold: replacing the indices and the other files changes the
  outcome, raised or returned, in nothing but the indices themselves.  So the
  results of the two \<^verbatim>\<open>union\<close> calls are dropped and no molecule recorded as
  isomorphic is processed alongside.  For a molecule that can be processed,
  \<^verbatim>\<open>add\<close> returns normally and every bucket grows by exactly the charges that
  this molecule has at its shell and fingerprint; and when the stored buckets
  are non-empty and sorted and hold these charges, \<^verbatim>\<open>subtract\<close> returns normally
  and every bucket shrinks by exactly these charges.
\<close>

lemma add_subtract_ignore_indices:
  assumes "indexed self"
    and "convert_from_file env' molid = convert_from_file env molid"
    and "canonize_neighborhood env' = canonize_neighborhood env"
    and "IACM_MAP env' = IACM_MAP env"
  shows "add env' (with_indices i1 i2 self) molid = map_outcome (with_indices i1 i2) (add env self molid)
     \<and> subtract env' (with_indices i1 i2 self) molid
         = map_outcome (with_indices i1 i2) (subtract env self molid)
     \<and> (processable env molid \<longrightarrow>
          (\<exists>self'. add env self molid = Inr self'
             \<and> (\<forall>shell key. mset (bucket_of (charges_iacm self') shell key) =
                   mset (bucket_of (charges_iacm self) shell key)
                   + charges_at (mset (observations_iacm env (max_shell self) molid)) shell key)
             \<and> (\<forall>shell key. mset (bucket_of (charges_elem self') shell key) =
                   mset (bucket_of (charges_elem self) shell key)
                   + charges_at (mset (observations_elem env (max_shell self) molid)) shell key)))
     \<and> (processable env molid
          \<and> buckets_ok (charges_iacm self) \<and> buckets_ok (charges_elem self)
          \<and> (\<forall>shell key. charges_at (mset (observations_iacm env (max_shell self) molid)) shell key
                 \<subseteq># mset (bucket_of (charges_iacm self) shell key))
          \<and> (\<forall>shell key. charges_at (mset (observations_elem env (max_shell self) molid)) shell key
                 \<subseteq># mset (bucket_of (charges_elem self) shell key)) \<longrightarrow>
          (\<exists>self'. subtract env self molid = Inr self'
             \<and> (\<forall>shell key. mset (bucket_of (charges_iacm self') shell key) =
                   mset (bucket_of (charges_iacm self) shell key)
                   - charges_at (mset (observations_iacm env (max_shell self) molid)) shell key)
             \<and> (\<forall>shell key. mset (bucket_of (charges_elem self') shell key) =
                   mset (bucket_of (charges_elem self) shell key)
                   - charges_at (mset (observations_elem env (max_shell self) molid)) shell key)))"
proof (intro conjI impI)
  show "add env' (with_indices i1 i2 self) molid = map_outcome (with_indices i1 i2) (add env self molid)"
    using iterate_with_indices [OF assms] by (simp add: add_def)
  show "subtract env' (with_indices i1 i2 self) molid
         = map_outcome (with_indices i1 i2) (subtract env self molid)"
    using iterate_with_indices [OF assms] by (simp add: subtract_def)
next
  assume "processable env molid"
  then show "\<exists>self'. add env self molid = Inr self'
             \<and> (\<forall>shell key. mset (bucket_of (charges_iacm self') shell key) =
                   mset (bucket_of (charges_iacm self) shell key)
                   + charges_at (mset (observations_iacm env (max_shell self) molid)) shell key)
             \<and> (\<forall>shell key. mset (bucket_of (charges_elem self') shell key) =
                   mset (bucket_of (charges_elem self) shell key)
                   + charges_at (mset (observations_elem env (max_shell self) molid)) shell key)"
    by (rule add_processable_mset [OF assms(1)])
next
  assume h: "processable env molid
          \<and> buckets_ok (charges_iacm self) \<and> buckets_ok (charges_elem self)
          \<and> (\<forall>shell key. charges_at (mset (observations_iacm env (max_shell self) molid)) shell key
                 \<subseteq># mset (bucket_of (charges_iacm self) shell key))
          \<and> (\<forall>shell key. charges_at (mset (observations_elem env (max_shell self) molid)) shell key
                 \<subseteq># mset (bucket_of (charges_elem self) shell key))"
  then have pr: "processable env molid"
    and ok: "buckets_ok (charges_iacm self)" "buckets_ok (charges_elem self)"
    and s1: "\<forall>shell key. charges_at (mset (observations_iacm env (max_shell self) molid)) shell key
                 \<subseteq># mset (bucket_of (charges_iacm self) shell key)"
    and s2: "\<forall>shell key. charges_at (mset (observations_elem env (max_shell self) molid)) shell key
                 \<subseteq># mset (bucket_of (charges_elem self) shell key)"
    by blast+
  from subtract_processable [OF assms(1) pr ok s1 s2] obtain c1 c2 where
    "subtract env self molid = Inr (self\<lparr>charges_iacm := c1, charges_elem := c2\<rparr>)"
    "\<forall>shell key. mset (bucket_of c1 shell key) =
           mset (bucket_of (charges_iacm self) shell key)
           - charges_at (mset (observations_iacm env (max_shell self) molid)) shell key"
    "\<forall>shell key. mset (bucket_of c2 shell key) =
           mset (bucket_of (charges_elem self) shell key)
           - charges_at (mset (observations_elem env (max_shell self) molid)) shell key"
    by blast
  then show "\<exists>self'. subtract env self molid = Inr self'
             \<and> (\<forall>shell key. mset (bucket_of (charges_iacm self') shell key) =
                   mset (bucket_of (charges_iacm self) shell key)
                   - charges_at (mset (observations_iacm env (max_shell self) molid)) shell key)
             \<and> (\<forall>shell key. mset (bucket_of (charges_elem self') shell key) =
                   mset (bucket_of (charges_elem self) shell key)
                   - charges_at (mset (observations_elem env (max_shell self) molid)) shell key)"
    by simp
qed

text \<open>
  An instance: \<open>after_add\<close> and molecule 1, with indices that record 1 and 3 as
  isomorphic and an environment in which the file of 3 does not exist.
\<close>

lemma add_subtract_ignore_indices_example:
  "add env_only_file_1 (with_indices index_1_3 index_1_3 after_add) 1
       = map_outcome (with_indices index_1_3 index_1_3) (add example_env after_add 1)
   \<and> subtract env_only_file_1 (with_indices index_1_3 index_1_3 after_add) 1
       = map_outcome (with_indices index_1_3 index_1_3) (subtract example_env after_add 1)
   \<and> subtract example_env after_add 1 = Inr after_subtract"
proof -
  have h1: "indexed after_add" by (simp add: indexed_def after_add_def)
  have h2: "convert_from_file env_only_file_1 1 = convert_from_file example_env 1"
    by (simp add: env_only_file_1_def example_env_def)
  have h3: "canonize_neighborhood env_only_file_1 = canonize_neighborhood example_env"
    by (simp add: env_only_file_1_def)
  have h4: "IACM_MAP env_only_file_1 = IACM_MAP example_env"
    by (simp add: env_only_file_1_def)
  from add_subtract_ignore_indices [OF h1 h2 h3 h4, of index_1_3 index_1_3]
  show ?thesis by (simp add: subtract_after_add_example)
qed

text \<open>
  C10.  The claim is made for every repository state.  In the state that the
  constructor returns the two index attributes are not assigned, the lookup
  \<^verbatim>\<open>molid in self.__iso_iacm\<close> raises AttributeError, and neither \<^verbatim>\<open>add\<close> nor
  \<^verbatim>\<open>subtract\<close> reaches the molecule, for any molecule id and any data directory:
  no bucket is changed, also not the buckets of molecule 1, whose single atom
  has an observation in both typings.
\<close>

theorem index_lookup_raises_on_new_repository:
  "Repository_init example_env 1 1 = Inr new_repository
   \<and> observations_iacm example_env (max_shell new_repository) 1 = [(1, ''C'', 1/10)]
   \<and> observations_elem example_env (max_shell new_repository) 1 = [(1, ''C'', 1/10)]
   \<and> add env new_repository molid = Inl (AttributeError, new_repository)
   \<and> subtract env new_repository molid = Inl (AttributeError, new_repository)"
proof -
  have "observations_iacm example_env (max_shell new_repository) 1 = [(1, ''C'', 1/10)]"
    by (simp add: observations_iacm_def spec_contribution_def spec_fragment_def charge_of_def
        new_repository_def example_defs upto.simps)
  moreover have "observations_elem example_env (max_shell new_repository) 1 = [(1, ''C'', 1/10)]"
    by (simp add: observations_elem_def spec_contribution_def spec_fragment_def charge_of_def
        spec_element_typed_def element_of_def new_repository_def example_defs upto.simps)
  ultimately show ?thesis
    by (simp add: new_repository_init add_new_repository subtract_new_repository)
qed

section \<open>Atoms without a partial charge\<close>

lemma raised_simps [simp]:
  "raised (Inl (e, st)) = Some e" "raised (Inr st) = None"
  by (simp_all add: raised_def)

lemma iter_from_first_uncharged:
  "find (\<lambda>v. partial_charge (node g v) = None) vs = Some v \<Longrightarrow>
   snd (iter_atomic_fragments_from env g shell vs) = Some (MissingPartialCharge v)"
  by (induction vs) (auto simp: Let_def split: option.splits if_splits)

lemma iter_atomic_fragments_uncharged:
  "first_uncharged g = Some v \<Longrightarrow>
   snd (iter_atomic_fragments env g shell) = Some (MissingPartialCharge v)"
  by (simp add: first_uncharged_def iter_atomic_fragments_def iter_from_first_uncharged)

lemma first_uncharged_None: "first_uncharged g = None \<longleftrightarrow> fully_charged g"
  by (auto simp: first_uncharged_def fully_charged_def find_None_iff)









lemma convert_to_elements_error:
  "convert_to_elements env vs g = Inl e \<Longrightarrow> e = KeyError"
  by (induction vs arbitrary: g) (auto split: option.splits)


lemma processed_fold_Inl:
  "fold (\<lambda>x acc. case acc of Inl e \<Rightarrow> Inl e
                    | Inr ys \<Rightarrow> (case work x of Inl e \<Rightarrow> Inl e | Inr y \<Rightarrow> Inr (ys @ [y])))
        xs (Inl e) = Inl e"
  by (induction xs) simp_all

lemma processed_fold_Inr:
  "fold (\<lambda>x acc. case acc of Inl e \<Rightarrow> Inl e
                    | Inr ys \<Rightarrow> (case work x of Inl e \<Rightarrow> Inl e | Inr y \<Rightarrow> Inr (ys @ [y])))
        xs (Inr acc)
   = (case processed work xs of Inl e \<Rightarrow> Inl e | Inr ys \<Rightarrow> Inr (acc @ ys))"
proof (induction xs arbitrary: acc)
  case Nil
  show ?case by (simp add: processed_def)
next
  case (Cons x xs)
  show ?case
  proof (cases "work x")
    case (Inl e)
    then show ?thesis by (simp add: processed_def processed_fold_Inl)
  next
    case (Inr y)
    then show ?thesis
      using Cons.IH [of "acc @ [y]"] Cons.IH [of "[y]"]
      by (simp add: processed_def split: sum.splits)
  qed
qed

lemma processed_Nil: "processed work [] = Inr []"
  by (simp add: processed_def)

lemma processed_Cons:
  "processed work (x # xs) =
     (case work x of
        Inl e \<Rightarrow> Inl e
      | Inr y \<Rightarrow> (case processed work xs of Inl e \<Rightarrow> Inl e | Inr ys \<Rightarrow> Inr (y # ys)))"
proof (cases "work x")
  case (Inl e)
  then show ?thesis by (simp add: processed_def processed_fold_Inl)
next
  case (Inr y)
  then show ?thesis
    using processed_fold_Inr [of work xs "[y]"] by (simp add: processed_def split: sum.splits)
qed


lemma processed_error:
  "processed work xs = Inl e \<Longrightarrow> \<exists>x \<in> set xs. work x = Inl e"
proof (induction xs)
  case Nil
  then show ?case by (simp add: processed_Nil)
next
  case (Cons x xs)
  then show ?case by (auto simp: processed_Cons split: sum.splits)
qed

lemma processed_results:
  "processed work xs = Inr ys \<Longrightarrow> \<forall>y \<in> set ys. \<exists>x \<in> set xs. work x = Inr y"
proof (induction xs arbitrary: ys)
  case Nil
  then show ?case by (simp add: processed_Nil)
next
  case (Cons x xs)
  then show ?case by (auto simp: processed_Cons split: sum.splits)
qed



lemma ChargeWorker_process_Inl:
  "ChargeWorker_process env shell (m, g) = Inl e \<longleftrightarrow> snd (iter_atomic_fragments env g shell) = Some e"
  by (auto simp: ChargeWorker_process_def Let_def split: option.splits)

lemma ChargeWorker_process_error:
  assumes "ChargeWorker_process env shell (m, g) = Inl e"
  shows "\<exists>v. first_uncharged g = Some v \<and> e = MissingPartialCharge v"
proof (cases "first_uncharged g")
  case None
  then have "snd (iter_atomic_fragments env g shell) = None"
    by (simp add: first_uncharged_None iter_atomic_fragments_charged)
  then show ?thesis using assms by (simp add: ChargeWorker_process_Inl)
next
  case (Some v)
  then show ?thesis
    using assms iter_atomic_fragments_uncharged [OF Some, of env shell]
    by (simp add: ChargeWorker_process_Inl)
qed

lemma accumulate_shells_error:
  "accumulate_shells env graphs shells charges = Inl e \<Longrightarrow>
   \<exists>shell. \<exists>x \<in> set graphs. ChargeWorker_process env shell x = Inl e"
proof (induction shells arbitrary: charges)
  case Nil
  then show ?case by simp
next
  case (Cons shell shells)
  show ?case
  proof (cases "processed (ChargeWorker_process env shell) graphs")
    case (Inl e')
    then have "e' = e" using Cons.prems by simp
    then show ?thesis using processed_error [OF Inl] by blast
  next
    case (Inr cs)
    then show ?thesis using Cons.prems Cons.IH by simp
  qed
qed

lemma generate_charges_error:
  assumes "generate_charges env self graphs = Inl e"
  shows "\<exists>m g v. (m, g) \<in> set graphs \<and> first_uncharged g = Some v \<and> e = MissingPartialCharge v"
proof -
  from assms have "accumulate_shells env graphs [min_shell self..max_shell self] new_charge_dict = Inl e"
    by (simp add: generate_charges_def split: sum.splits)
  from accumulate_shells_error [OF this] obtain shell x where
    x: "x \<in> set graphs" "ChargeWorker_process env shell x = Inl e" by blast
  obtain m g where "x = (m, g)" by (cases x)
  then show ?thesis using x ChargeWorker_process_error [of env shell m g e] by blast
qed


lemma read_graphs_sound:
  assumes "read_graphs env molids = Inr graphs"
  shows "\<forall>(m, g) \<in> set graphs. m \<in> set molids \<and> convert_from_file env m = Some g"
  using processed_results [of "ReadWorker_process env" molids graphs] assms
  by (fastforce simp: read_graphs_def ReadWorker_process_def split: option.splits)



lemma first_uncharged_converted:
  assumes "convert_to_elements env vs g = Inr g'"
  shows "first_uncharged g' = first_uncharged g"
proof -
  have k: "nodes g' = nodes g" "\<And>v. partial_charge (node g' v) = partial_charge (node g v)"
    using convert_to_elements_keeps [OF assms] by simp_all
  show ?thesis by (simp add: first_uncharged_def k)
qed

lemma Repository_init_error: "Repository_init env mn mx = Inl e \<Longrightarrow> e = ValueError"
  by (simp add: Repository_init_def split: if_splits)

lemma read_graphs_error: "read_graphs env molids = Inl e \<Longrightarrow> e = IOError"
  using processed_error [of "ReadWorker_process env" molids e]
  by (auto simp: read_graphs_def ReadWorker_process_def split: option.splits)

lemma make_isomorphics_error: "make_isomorphics molids canons = Inl e \<Longrightarrow> e = KeyError"
  by (simp add: make_isomorphics_def split: if_splits)

lemma convert_item_error: "convert_item env x = Inl e \<Longrightarrow> e = KeyError"
  by (auto simp: convert_item_def dest: convert_to_elements_error split: sum.splits)

lemma convert_item_result:
  "convert_item env (m, g) = Inr (m', g') \<Longrightarrow> m' = m \<and> first_uncharged g' = first_uncharged g"
  by (auto simp: convert_item_def dest: first_uncharged_converted split: sum.splits)

lemma create_from_error:
  assumes "create_from env molids mn mx = Inl e"
  shows "e = ValueError \<or> e = IOError \<or> e = KeyError
       \<or> (\<exists>m g v. m \<in> set molids \<and> convert_from_file env m = Some g
              \<and> first_uncharged g = Some v \<and> e = MissingPartialCharge v)"
proof (cases "Repository_init env mn mx")
  case (Inl e0)
  then show ?thesis using assms Repository_init_error [of env mn mx e0] by (simp add: create_from_def)
next
  case repo: (Inr repo)
  show ?thesis
  proof (cases "read_graphs env molids")
    case (Inl e0)
    then show ?thesis using assms repo read_graphs_error [of env molids e0] by (simp add: create_from_def)
  next
    case graphs: (Inr graphs)
    note sound = read_graphs_sound [OF graphs]
    show ?thesis
    proof (cases "generate_charges env repo graphs")
      case (Inl e0)
      then have "e0 = e" using assms repo graphs by (simp add: create_from_def)
      then show ?thesis using generate_charges_error [OF Inl] sound by blast
    next
      case iacm: (Inr iacm)
      show ?thesis
      proof (cases "make_isomorphics molids (make_canons env graphs)")
        case (Inl e0)
        then show ?thesis
          using assms repo graphs iacm make_isomorphics_error [OF Inl] by (simp add: create_from_def)
      next
        case ii: (Inr index_iacm)
        show ?thesis
        proof (cases "processed (convert_item env) graphs")
          case (Inl e0)
          then have "e0 = KeyError" using processed_error [OF Inl] convert_item_error by blast
          then show ?thesis
            using assms repo graphs iacm ii Inl by (simp add: create_from_def)
        next
          case graphs': (Inr graphs')
          show ?thesis
          proof (cases "generate_charges env repo graphs'")
            case (Inl e0)
            then have e0: "e0 = e"
              using assms repo graphs iacm ii graphs' by (simp add: create_from_def)
            from generate_charges_error [OF Inl] obtain m g' v where
              m: "(m, g') \<in> set graphs'" "first_uncharged g' = Some v" "e0 = MissingPartialCharge v"
              by blast
            from processed_results [OF graphs'] m(1) obtain x where
              x: "x \<in> set graphs" "convert_item env x = Inr (m, g')" by blast
            obtain m0 g where xg: "x = (m0, g)" by (cases x)
            have "m0 = m" "first_uncharged g = first_uncharged g'"
              using convert_item_result [of env m0 g m g'] x(2) xg by simp_all
            then have "m \<in> set molids \<and> convert_from_file env m = Some g \<and> first_uncharged g = Some v"
              using sound x(1) xg m(2) by auto
            then show ?thesis using m(3) e0 by blast
          next
            case elem: (Inr elem)
            show ?thesis
            proof (cases "make_isomorphics molids (make_canons env graphs')")
              case (Inl e0)
              then show ?thesis
                using assms repo graphs iacm ii graphs' elem make_isomorphics_error [OF Inl]
                by (simp add: create_from_def)
            next
              case (Inr index_elem)
              then show ?thesis
                using assms repo graphs iacm ii graphs' elem
                by (simp add: create_from_def)
            qed
          qed
        qed
      qed
    qed
  qed
qed












section \<open>Lookups through a filtered view\<close>

lemma filtered_copy_eq:
  "filtered_copy blocked entries = map fst (filter (\<lambda>entry. fst (snd entry) \<notin> set blocked) entries)"
  by (simp add: filtered_copy_def case_prod_unfold)

lemma FilteredCharges_getitem_eq:
  "FilteredCharges_getitem \<lparr>fc_charges = d, fc_blocked_molids = blocked\<rparr> key =
     ((case items d key of
         None \<Rightarrow> Inl KeyError
       | Some entries \<Rightarrow>
           (let kept = filter (\<lambda>entry. fst (snd entry) \<notin> set blocked) entries
            in if kept = [] then Inl KeyError else Inr (map fst kept))), d)"
  by (cases "items d key")
     (simp_all add: FilteredCharges_getitem_def py_contains_def py_getitem_def filtered_copy_eq Let_def)

lemma py_setitem_same: "items d k = Some v \<Longrightarrow> py_setitem d k v = d"
  by (simp add: py_setitem_def fun_upd_idem)

lemma lookup_iacm_eq:
  "lookup_iacm repo molid shell key =
     (spec_filtered_lookup (t_charges_iacm repo) (spec_exclusion_set (t_iso_iacm repo) molid) shell key, repo)"
proof (cases "items (t_charges_iacm repo) shell")
  case None
  then show ?thesis
    by (simp add: lookup_iacm_def FilteredRepository_init_def spec_filtered_lookup_def Let_def)
next
  case (Some d)
  then show ?thesis
    by (cases "t_iso_iacm repo molid")
       (simp_all add: lookup_iacm_def FilteredRepository_init_def spec_filtered_lookup_def
          spec_exclusion_set_def FilteredCharges_getitem_eq py_setitem_same Let_def
          cong: option.case_cong)
qed

lemma lookup_elem_eq:
  "lookup_elem repo molid shell key =
     (spec_filtered_lookup (t_charges_elem repo) (spec_exclusion_set (t_iso_elem repo) molid) shell key, repo)"
proof (cases "items (t_charges_elem repo) shell")
  case None
  then show ?thesis
    by (simp add: lookup_elem_def FilteredRepository_init_def spec_filtered_lookup_def Let_def)
next
  case (Some d)
  then show ?thesis
    by (cases "t_iso_elem repo molid")
       (simp_all add: lookup_elem_def FilteredRepository_init_def spec_filtered_lookup_def
          spec_exclusion_set_def FilteredCharges_getitem_eq py_setitem_same Let_def
          cong: option.case_cong)
qed

lemma blocked_molids_iacm:
  "fr_charges_iacm (FilteredRepository_init repo molid) shell = Some fc \<Longrightarrow>
   set (fc_blocked_molids fc) = spec_exclusion_set (t_iso_iacm repo) molid"
  by (cases "t_iso_iacm repo molid")
     (auto simp: FilteredRepository_init_def spec_exclusion_set_def Let_def)

lemma blocked_molids_elem:
  "fr_charges_elem (FilteredRepository_init repo molid) shell = Some fc \<Longrightarrow>
   set (fc_blocked_molids fc) = spec_exclusion_set (t_iso_elem repo) molid"
  by (cases "t_iso_elem repo molid")
     (auto simp: FilteredRepository_init_def spec_exclusion_set_def Let_def)

text \<open>
  C7.  For the view that \<^verbatim>\<open>_FilteredRepository\<close> builds over a traceable
  repository for a molecule id, in both typings: the blocked molecule ids of
  every shell are the molecule id alone when the isomorphism index does not hold
  it and the recorded group otherwise; a lookup of a shell and a fingerprint
  returns the charges of the underlying bucket's entries whose molecule id is not
  blocked, raises KeyError when no entry is left or when the shell or the bucket
  does not exist, and leaves the underlying repository as it was, also when its
  stores are defaultdicts.
\<close>

theorem filtered_view_lookup:
  "lookup_iacm repo molid shell key =
     (spec_filtered_lookup (t_charges_iacm repo) (spec_exclusion_set (t_iso_iacm repo) molid) shell key, repo)
   \<and> lookup_elem repo molid shell key =
     (spec_filtered_lookup (t_charges_elem repo) (spec_exclusion_set (t_iso_elem repo) molid) shell key, repo)
   \<and> (\<forall>fc. fr_charges_iacm (FilteredRepository_init repo molid) shell = Some fc \<longrightarrow>
         set (fc_blocked_molids fc) = spec_exclusion_set (t_iso_iacm repo) molid)
   \<and> (\<forall>fc. fr_charges_elem (FilteredRepository_init repo molid) shell = Some fc \<longrightarrow>
         set (fc_blocked_molids fc) = spec_exclusion_set (t_iso_elem repo) molid)"
  using lookup_iacm_eq lookup_elem_eq blocked_molids_iacm blocked_molids_elem by blast

text \<open>Lookups on the view of \<open>traceable_example\<close> for the molecules 1 and 2.\<close>

theorem filtered_view_lookup_witness:
  "lookup_iacm traceable_example 1 1 ''C'' = (Inr [1/5], traceable_example)
   \<and> lookup_iacm traceable_example 2 1 ''C'' = (Inr [1/10, 1/10], traceable_example)
   \<and> lookup_elem traceable_example 1 1 ''N'' = (Inl KeyError, traceable_example)
   \<and> lookup_elem traceable_example 1 2 ''C'' = (Inl KeyError, traceable_example)
   \<and> fr_charges_iacm (FilteredRepository_init traceable_example 1) 1
        = Some \<lparr>fc_charges = \<lparr>items = [''C'' \<mapsto> [(1/10, 1, 0), (1/5, 2, 0), (1/10, 3, 0)]],
                                default_factory = Some []\<rparr>,
                 fc_blocked_molids = [1, 3]\<rparr>
   \<and> spec_exclusion_set (t_iso_iacm traceable_example) 1 = {1, 3}
   \<and> spec_exclusion_set (t_iso_iacm traceable_example) 2 = {2}"
proof -
  have v: "fr_charges_iacm (FilteredRepository_init traceable_example 1) 1
        = Some \<lparr>fc_charges = \<lparr>items = [''C'' \<mapsto> [(1/10, 1, 0), (1/5, 2, 0), (1/10, 3, 0)]],
                                default_factory = Some []\<rparr>,
                 fc_blocked_molids = [1, 3]\<rparr>"
    by (simp add: FilteredRepository_init_def traceable_example_def index_1_3_def)
  from filtered_view_lookup [of traceable_example 1 1 "''C''"] v
  have "spec_exclusion_set (t_iso_iacm traceable_example) 1 = {1, 3}" by auto
  moreover have "spec_exclusion_set (t_iso_iacm traceable_example) 2 = {2}"
    by (simp add: spec_exclusion_set_def traceable_example_def index_1_3_def)
  ultimately show ?thesis
    using filtered_view_lookup [of traceable_example 1 1 "''C''"]
      filtered_view_lookup [of traceable_example 2 1 "''C''"]
      filtered_view_lookup [of traceable_example 1 1 "''N''"]
      filtered_view_lookup [of traceable_example 1 2 "''C''"] v
    by (simp add: traceable_example_def index_1_3_def spec_filtered_lookup_def spec_exclusion_set_def)
qed

section \<open>Writing and reading an archive\<close>

lemma write_indexed:
  assumes "iso_iacm R = Some i1" "iso_elem R = Some i2"
  shows "Repository_write mp R = Inr [''meta'' \<mapsto> packb_meta mp (min_shell R, max_shell R),
                           ''charges_iacm'' \<mapsto> packb_charges mp (charges_iacm R),
                           ''charges_elem'' \<mapsto> packb_charges mp (charges_elem R),
                           ''iso_iacm'' \<mapsto> packb_iso mp i1,
                           ''iso_elem'' \<mapsto> packb_iso mp i2]"
  using assms by (simp add: Repository_write_def Let_def)

lemma write_not_indexed:
  assumes "Repository_init env mn mx = Inr R"
  shows "raised (Repository_write mp R) = Some AttributeError"
  using assms by (auto simp: Repository_write_def Repository_init_def Let_def split: if_splits)

text \<open>
  Once the isomorphism indices are assigned, also as empty ones, \<^verbatim>\<open>write\<close>
  returns normally with an archive of the five entries, and \<^verbatim>\<open>read\<close> of that
  archive returns a repository equal to the written one: the shell bounds, both
  stores bucket for bucket, and both indices.  This holds for every msgpack
  library that round-trips the five values, in an environment where the
  dreadnaut executable that \<^verbatim>\<open>Repository()\<close> checks for is present.
\<close>

lemma read_write_round_trip_indexed:
  assumes "indexed R" "executable_ok env" "msgpack_round_trips mp R"
  shows "\<exists>archive R'. Repository_write mp R = Inr archive \<and> Repository_read mp env archive = Inr R' \<and> repository_eq R' R"
proof -
  obtain i1 i2 where i: "iso_iacm R = Some i1" "iso_elem R = Some i2"
    using assms(1) by (auto simp: indexed_def)
  define archive where "archive = [''meta'' \<mapsto> packb_meta mp (min_shell R, max_shell R),
                           ''charges_iacm'' \<mapsto> packb_charges mp (charges_iacm R),
                           ''charges_elem'' \<mapsto> packb_charges mp (charges_elem R),
                           ''iso_iacm'' \<mapsto> packb_iso mp i1,
                           ''iso_elem'' \<mapsto> packb_iso mp i2]"
  have w: "Repository_write mp R = Inr archive"
    unfolding archive_def by (rule write_indexed [OF i])
  have rt: "unpackb_meta mp (packb_meta mp (min_shell R, max_shell R)) = [min_shell R, max_shell R]"
    "contents (unpackb_charges mp (packb_charges mp (charges_iacm R))) = contents (charges_iacm R)"
    "contents (unpackb_charges mp (packb_charges mp (charges_elem R))) = contents (charges_elem R)"
    "unpackb_iso mp (packb_iso mp i1) = i1" "unpackb_iso mp (packb_iso mp i2) = i2"
    using assms(3) i by (simp_all add: msgpack_round_trips_def)
  have entries: "zf_read archive ''meta'' = Inr (packb_meta mp (min_shell R, max_shell R))"
    "zf_read archive ''charges_iacm'' = Inr (packb_charges mp (charges_iacm R))"
    "zf_read archive ''charges_elem'' = Inr (packb_charges mp (charges_elem R))"
    "zf_read archive ''iso_iacm'' = Inr (packb_iso mp i1)"
    "zf_read archive ''iso_elem'' = Inr (packb_iso mp i2)"
    by (simp_all add: zf_read_def archive_def)
  define R' where "R' = \<lparr>min_shell = min_shell R, max_shell = max_shell R,
       charges_iacm = unpackb_charges mp (packb_charges mp (charges_iacm R)),
       charges_elem = unpackb_charges mp (packb_charges mp (charges_elem R)),
       iso_iacm = Some i1, iso_elem = Some i2\<rparr>"
  have r: "Repository_read mp env archive = Inr R'"
    using assms(2) by (simp add: Repository_read_def Repository_init_def entries rt R'_def)
  have "repository_eq R' R"
    by (simp add: repository_eq_def R'_def rt i)
  then show ?thesis using w r by blast
qed

text \<open>
  An instance with stored buckets and recorded isomorphism groups, for the
  stand-in library.
\<close>

lemma read_write_round_trip_example:
  "\<exists>archive R'. Repository_write example_msgpack (with_indices index_1_3 index_1_3 after_add) = Inr archive
         \<and> Repository_read example_msgpack example_env archive = Inr R'
         \<and> repository_eq R' (with_indices index_1_3 index_1_3 after_add)"
proof -
  have h1: "indexed (with_indices index_1_3 index_1_3 after_add)"
    by (simp add: indexed_def with_indices_def)
  have h2: "executable_ok example_env" by (simp add: example_env_def)
  have c: "contents (as_plain_dicts c) = contents c" for c
    by (rule ext) (simp add: contents_def as_plain_dicts_def option.map_comp comp_def)
  have h3: "msgpack_round_trips example_msgpack (with_indices index_1_3 index_1_3 after_add)"
    by (simp add: msgpack_round_trips_def example_msgpack_def c with_indices_def)
  from read_write_round_trip_indexed [OF h1 h2 h3] show ?thesis .
qed

text \<open>
  C5.  The claim is made for every repository.  For the one that the
  constructor returns, \<^verbatim>\<open>write\<close> stores the entries \<^verbatim>\<open>meta\<close>, \<^verbatim>\<open>charges_iacm\<close> and
  \<^verbatim>\<open>charges_elem\<close> and then raises AttributeError at \<^verbatim>\<open>self.__iso_iacm\<close>, which
  \<^verbatim>\<open>__init__\<close> never assigns; \<^verbatim>\<open>read\<close> of the archive left behind raises KeyError
  at the missing entry \<^verbatim>\<open>iso_iacm\<close>.  No repository is read back.
\<close>

theorem write_new_repository_raises:
  "Repository_init example_env 1 1 = Inr new_repository
   \<and> Repository_write example_msgpack new_repository = Inl (AttributeError, archive_without_indices)
   \<and> Repository_read example_msgpack example_env archive_without_indices = Inl KeyError"
proof -
  have w: "Repository_write example_msgpack new_repository = Inl (AttributeError, archive_without_indices)"
    by (simp add: Repository_write_def Let_def new_repository_def example_msgpack_def
        archive_without_indices_def)
  have r: "Repository_read example_msgpack example_env archive_without_indices = Inl KeyError"
    by (simp add: Repository_read_def Repository_init_def zf_read_def example_msgpack_def
        archive_without_indices_def example_env_def)
  show ?thesis using w r by (simp add: new_repository_init)
qed

end
